theory Spec2Isabelle
  imports Main "HOL-Library.AList"
begin

section \<open>Webhook route derivation\<close>

text \<open>
  The node as far as the webhook functions read it: \<open>node.name\<close> and the optional
  \<open>node.webhookId\<close> (\<open>None\<close> is JavaScript's \<open>undefined\<close>). The fields of a
  schema entry declared further down include a \<open>name\<close> too; from there on the node's is
  written \<open>INode.name\<close>.
\<close>

record INode =
  name :: string
  webhookId :: "string option"












section \<open>Values\<close>

text \<open>
  The module works on untyped JavaScript values: the user's parameter values
  (\<open>INodeParameters\<close>), the defaults of the schema and the resolved result. A value is
  \<open>undefined\<close>, \<open>null\<close>, a boolean, a number, a string, an array or an object. Numbers
  are integers here: the module compares numbers and never computes with them. An object
  is the list of its own properties in insertion order, which is the order
  \<open>Object.keys\<close> walks for keys that are not array indices; its keys are pairwise
  distinct in every object that JavaScript can build, and \<open>AList.update\<close> writes a
  property the way an assignment does (in place when the key exists, at the end when it
  is new). Properties inherited from prototypes are outside the model.
\<close>

datatype jsval =
    JUndefined
  | JNull
  | JBool bool
  | JNum int
  | JStr string
  | JArr "jsval list"
  | JObj "(string \<times> jsval) list"

type_synonym jsobject = "(string \<times> jsval) list"

text \<open>
  What a call can throw: \<open>new Error(message)\<close> of the module itself, a \<open>TypeError\<close>
  of the runtime (a property read on \<open>undefined\<close> or \<open>null\<close>, a \<open>for ... of\<close> over
  something that is not iterable) and the \<open>SyntaxError\<close> of \<open>JSON.parse(undefined)\<close>.
\<close>

datatype error = Error string | TypeError | SyntaxError

definition isNullish :: "jsval \<Rightarrow> bool" where
  "isNullish v = (v = JUndefined \<or> v = JNull)"

definition truthy :: "jsval \<Rightarrow> bool" where
  "truthy v =
     (case v of
        JUndefined \<Rightarrow> False
      | JNull \<Rightarrow> False
      | JBool b \<Rightarrow> b
      | JNum n \<Rightarrow> n \<noteq> 0
      | JStr s \<Rightarrow> s \<noteq> []
      | JArr _ \<Rightarrow> True
      | JObj _ \<Rightarrow> True)"

definition typeofObject :: "jsval \<Rightarrow> bool" where
  "typeofObject v = (case v of JNull \<Rightarrow> True | JArr _ \<Rightarrow> True | JObj _ \<Rightarrow> True | _ \<Rightarrow> False)"

text \<open>
  \<open>Array.prototype.includes\<close> compares with SameValueZero: primitives by value, arrays
  and objects by identity. A value read from the user's tree and a value written in the
  schema are never the same array or object.
\<close>

definition sameValueZero :: "jsval \<Rightarrow> jsval \<Rightarrow> bool" where
  "sameValueZero a b = (case a of JArr _ \<Rightarrow> False | JObj _ \<Rightarrow> False | _ \<Rightarrow> a = b)"

definition includesValue :: "jsval list \<Rightarrow> jsval \<Rightarrow> bool" where
  "includesValue values v = list_ex (\<lambda>w. sameValueZero w v) values"

definition charAt0 :: "string \<Rightarrow> string" where
  "charAt0 s = take 1 s"

text \<open>The decimal digits of an array index, and the index a property key denotes.\<close>

fun digitsOf :: "nat \<Rightarrow> string" where
  "digitsOf n =
     (if n < 10 then [char_of (48 + n)] else digitsOf (n div 10) @ [char_of (48 + n mod 10)])"

definition parseIndex :: "string \<Rightarrow> nat option" where
  "parseIndex s =
     (if s \<noteq> [] \<and> list_all (\<lambda>c. 48 \<le> (of_char c :: nat) \<and> (of_char c :: nat) \<le> 57) s
         \<and> (length s = 1 \<or> hd s \<noteq> CHR ''0'')
      then Some (foldl (\<lambda>n c. 10 * n + (of_char c - 48)) 0 s)
      else None)"

text \<open>
  \<open>object[key]\<close> on a value that is neither \<open>undefined\<close> nor \<open>null\<close>: an own property
  of an object, an element or the length of an array or string, \<open>undefined\<close> otherwise.
  \<open>readProperty\<close> adds the \<open>TypeError\<close> of a read on \<open>undefined\<close> or \<open>null\<close>.
\<close>

definition getProperty :: "jsval \<Rightarrow> string \<Rightarrow> jsval" where
  "getProperty object key =
     (case object of
        JObj kvs \<Rightarrow> (case map_of kvs key of Some v \<Rightarrow> v | None \<Rightarrow> JUndefined)
      | JArr xs \<Rightarrow>
          (if key = ''length'' then JNum (int (length xs))
           else case parseIndex key of
                  Some i \<Rightarrow> (if i < length xs then xs ! i else JUndefined)
                | None \<Rightarrow> JUndefined)
      | JStr s \<Rightarrow>
          (if key = ''length'' then JNum (int (length s))
           else case parseIndex key of
                  Some i \<Rightarrow> (if i < length s then JStr [s ! i] else JUndefined)
                | None \<Rightarrow> JUndefined)
      | _ \<Rightarrow> JUndefined)"

definition hasProperty :: "jsval \<Rightarrow> string \<Rightarrow> bool" where
  "hasProperty object key =
     (case object of
        JObj kvs \<Rightarrow> key \<in> fst ` set kvs
      | JArr xs \<Rightarrow> key = ''length'' \<or> (case parseIndex key of Some i \<Rightarrow> i < length xs | None \<Rightarrow> False)
      | JStr s \<Rightarrow> key = ''length'' \<or> (case parseIndex key of Some i \<Rightarrow> i < length s | None \<Rightarrow> False)
      | _ \<Rightarrow> False)"

definition readProperty :: "jsval \<Rightarrow> string \<Rightarrow> error + jsval" where
  "readProperty object key =
     (if isNullish object then Inl TypeError else Inr (getProperty object key))"

definition objectKeys :: "jsval \<Rightarrow> string list" where
  "objectKeys v =
     (case v of
        JObj kvs \<Rightarrow> map fst kvs
      | JArr xs \<Rightarrow> map digitsOf [0 ..< length xs]
      | JStr s \<Rightarrow> map digitsOf [0 ..< length s]
      | _ \<Rightarrow> [])"

text \<open>\<open>for (const x of v)\<close>: the elements of an array, the characters of a string.\<close>

definition iterate :: "jsval \<Rightarrow> error + jsval list" where
  "iterate v =
     (case v of
        JArr xs \<Rightarrow> Inr xs
      | JStr s \<Rightarrow> Inr (map (\<lambda>c. JStr [c]) s)
      | _ \<Rightarrow> Inl TypeError)"

definition objectAssign :: "jsobject \<Rightarrow> jsval \<Rightarrow> jsobject" where
  "objectAssign target source =
     fold (\<lambda>key t. AList.update key (getProperty source key) t) (objectKeys source) target"

subsection \<open>lodash: get and isEqual\<close>

text \<open>
  \<open>get(object, path)\<close> of lodash, for the paths this module builds: property names
  joined by dots, with array indices in brackets (\<open>a.b[0].c\<close>). A path that is itself a
  property of the object, or that has neither a dot nor a bracket, is one key; any
  other path is cut at dots and brackets. The walk stops with \<open>undefined\<close> at the first
  \<open>undefined\<close> or \<open>null\<close>.
\<close>

fun splitPath :: "string \<Rightarrow> string \<Rightarrow> string list" where
  "splitPath acc [] = (if acc = [] then [] else [acc])"
| "splitPath acc (c # cs) =
     (if c = CHR ''.'' \<or> c = CHR ''['' \<or> c = CHR '']''
      then (if acc = [] then splitPath [] cs else acc # splitPath [] cs)
      else splitPath (acc @ [c]) cs)"

definition castPath :: "string \<Rightarrow> jsval \<Rightarrow> string list" where
  "castPath path object =
     (if (CHR ''.'' \<notin> set path \<and> CHR ''['' \<notin> set path) \<or> hasProperty object path then [path]
      else splitPath [] path)"

fun baseGet :: "jsval \<Rightarrow> string list \<Rightarrow> jsval" where
  "baseGet object [] = object"
| "baseGet object (key # keys) =
     (if isNullish object then JUndefined else baseGet (getProperty object key) keys)"

definition get :: "jsval \<Rightarrow> string \<Rightarrow> jsval" where
  "get object path =
     (if isNullish object then JUndefined
      else (case castPath path object of [] \<Rightarrow> JUndefined | keys \<Rightarrow> baseGet object keys))"

text \<open>
  \<open>isEqual\<close> of lodash compares deeply: arrays element by element, objects property by
  property whatever the order of their keys.
\<close>

fun isEqual :: "jsval \<Rightarrow> jsval \<Rightarrow> bool"
  and isEqualElements :: "jsval list \<Rightarrow> jsval list \<Rightarrow> bool"
  and isEqualProperties :: "(string \<times> jsval) list \<Rightarrow> (string \<times> jsval) list \<Rightarrow> bool" where
  "isEqual (JArr xs) b = (case b of JArr ys \<Rightarrow> isEqualElements xs ys | _ \<Rightarrow> False)"
| "isEqual (JObj kvs) b =
     (case b of JObj kws \<Rightarrow> length kvs = length kws \<and> isEqualProperties kvs kws | _ \<Rightarrow> False)"
| "isEqual JUndefined b = (b = JUndefined)"
| "isEqual JNull b = (b = JNull)"
| "isEqual (JBool x) b = (b = JBool x)"
| "isEqual (JNum x) b = (b = JNum x)"
| "isEqual (JStr x) b = (b = JStr x)"
| "isEqualElements [] ys = (ys = [])"
| "isEqualElements (x # xs) ys =
     (case ys of [] \<Rightarrow> False | y # ys' \<Rightarrow> isEqual x y \<and> isEqualElements xs ys')"
| "isEqualProperties [] kws = True"
| "isEqualProperties (kv # kvs) kws =
     ((case map_of kws (fst kv) of None \<Rightarrow> False | Some w \<Rightarrow> isEqual (snd kv) w)
      \<and> isEqualProperties kvs kws)"

subsection \<open>JSON.parse(JSON.stringify(v))\<close>

text \<open>
  The copy the module makes of a default: \<open>undefined\<close> becomes \<open>null\<close> inside an array
  and drops the property inside an object; \<open>JSON.stringify(undefined)\<close> is \<open>undefined\<close>,
  which \<open>JSON.parse\<close> refuses.
\<close>

fun jsonCopy :: "jsval \<Rightarrow> jsval"
  and jsonCopyElements :: "jsval list \<Rightarrow> jsval list"
  and jsonCopyProperties :: "(string \<times> jsval) list \<Rightarrow> (string \<times> jsval) list" where
  "jsonCopy (JArr xs) = JArr (jsonCopyElements xs)"
| "jsonCopy (JObj kvs) = JObj (jsonCopyProperties kvs)"
| "jsonCopy JUndefined = JUndefined"
| "jsonCopy JNull = JNull"
| "jsonCopy (JBool x) = JBool x"
| "jsonCopy (JNum x) = JNum x"
| "jsonCopy (JStr x) = JStr x"
| "jsonCopyElements [] = []"
| "jsonCopyElements (x # xs) = (if x = JUndefined then JNull else jsonCopy x) # jsonCopyElements xs"
| "jsonCopyProperties [] = []"
| "jsonCopyProperties (kv # kvs) =
     (if snd kv = JUndefined then jsonCopyProperties kvs
      else (fst kv, jsonCopy (snd kv)) # jsonCopyProperties kvs)"

definition jsonClone :: "jsval \<Rightarrow> error + jsval" where
  "jsonClone v = (if v = JUndefined then Inl SyntaxError else Inr (jsonCopy v))"

text \<open>A loop whose body can throw: it stops at the first error.\<close>

fun foldE :: "('a \<Rightarrow> 's \<Rightarrow> error + 's) \<Rightarrow> 'a list \<Rightarrow> 's \<Rightarrow> error + 's" where
  "foldE f [] s = Inr s"
| "foldE f (x # xs) s = (case f x s of Inl e \<Rightarrow> Inl e | Inr s' \<Rightarrow> foldE f xs s')"

lemma foldE_cong [fundef_cong]:
  "xs = ys \<Longrightarrow> s = t \<Longrightarrow> (\<And>x st. x \<in> set ys \<Longrightarrow> f x st = g x st)
     \<Longrightarrow> foldE f xs s = foldE g ys t"
proof (induction xs arbitrary: ys s t)
  case Nil
  then show ?case by simp
next
  case (Cons x xs)
  then show ?case by (auto split: sum.splits)
qed


section \<open>Field schemas\<close>

text \<open>
  \<open>INodeProperties\<close> as the functions of this module read it. \<open>type\<close> is the string
  tag the code compares with (\<open>'string'\<close>, \<open>'collection'\<close>, ...). An optional member is an
  \<open>option\<close>, \<open>None\<close> standing for \<open>undefined\<close>. The keys of \<open>displayOptions.show\<close> and
  \<open>displayOptions.hide\<close> are kept in their order, each with its list of accepted values;
  \<open>show\<close> is taken to be declared before \<open>hide\<close>.

  The entries of \<open>options\<close> are, as in the interface,
  \<open>INodePropertyOptions | INodeProperties | INodePropertyCollection\<close>: a choice of an
  enumerated field, a sub-field of a collection, or a named group of a fixedCollection
  with its \<open>values\<close>.
\<close>

record ITypeOptions =
  multipleValues :: "bool option"

record IDisplayOptions =
  displayShow :: "(string \<times> jsval list) list option"
  displayHide :: "(string \<times> jsval list) list option"

datatype INodeProperties = INodeProperties
    (displayName: string)
    (name: string)
    (type: string)
    (typeOptions: "ITypeOptions option")
    (default: jsval)
    (displayOptions: "IDisplayOptions option")
    (options: "INodePropertyOption list option")
    (required: "bool option")
and INodePropertyOption =
    PropertyOptions string jsval
  | Properties INodeProperties
  | PropertyCollection string string "INodeProperties list"

type_synonym IParameterDependencies = "(string \<times> string list) list"

text \<open>
  The code casts the entries of \<open>options\<close> without a check: \<open>as INodeProperties[]\<close> for a
  collection, \<open>as INodePropertyCollection\<close> for a fixedCollection. The three functions
  below are what each cast then reads. An entry of another shape read as a field has its
  name and nothing else, so its \<open>type\<close> equals none of the tags the code compares with
  (the empty string stands for that), and read as a group it has no \<open>values\<close>.
\<close>

definition asNodeProperties :: "INodePropertyOption \<Rightarrow> INodeProperties" where
  "asNodeProperties entry =
     (case entry of
        Properties p \<Rightarrow> p
      | PropertyOptions n v \<Rightarrow> INodeProperties [] n [] None JUndefined None None None
      | PropertyCollection d n vs \<Rightarrow> INodeProperties d n [] None JUndefined None None None)"

definition optionName :: "INodePropertyOption \<Rightarrow> string" where
  "optionName entry =
     (case entry of
        Properties p \<Rightarrow> name p
      | PropertyOptions n v \<Rightarrow> n
      | PropertyCollection d n vs \<Rightarrow> n)"

definition optionValues :: "INodePropertyOption \<Rightarrow> INodeProperties list option" where
  "optionValues entry =
     (case entry of
        PropertyCollection d n vs \<Rightarrow> Some vs
      | _ \<Rightarrow> None)"

definition isMultipleValues :: "INodeProperties \<Rightarrow> bool" where
  "isMultipleValues nodeProperties =
     (case typeOptions nodeProperties of None \<Rightarrow> False | Some t \<Rightarrow> multipleValues t = Some True)"


text \<open>
  The size of a schema, counting every field and every entry below it. The recursive
  functions over schemas descend into strictly smaller schemas.
\<close>

fun weight :: "INodeProperties \<Rightarrow> nat"
  and weightOption :: "INodePropertyOption \<Rightarrow> nat"
  and weightOptions :: "INodePropertyOption list \<Rightarrow> nat"
  and weightList :: "INodeProperties list \<Rightarrow> nat" where
  "weight (INodeProperties d n t topts dflt dopts opts req) =
     Suc (case opts of None \<Rightarrow> 0 | Some os \<Rightarrow> weightOptions os)"
| "weightOption (PropertyOptions n v) = 1"
| "weightOption (Properties p) = weight p"
| "weightOption (PropertyCollection d n vs) = Suc (weightList vs)"
| "weightOptions [] = 0"
| "weightOptions (e # es) = weightOption e + weightOptions es"
| "weightList [] = 0"
| "weightList (p # ps) = weight p + weightList ps"

lemma weight_asNodeProperties: "weight (asNodeProperties e) \<le> weightOption e"
  by (cases e) (simp_all add: asNodeProperties_def)

lemma weightList_map_asNodeProperties: "weightList (map asNodeProperties es) \<le> weightOptions es"
  by (induction es) (simp_all add: weight_asNodeProperties add_mono)

lemma weight_nth: "i < length ps \<Longrightarrow> weight (ps ! i) \<le> weightList ps"
  by (induction ps arbitrary: i) (auto simp: nth_Cons split: nat.splits intro: trans_le_add2)

lemma weight_member: "p \<in> set ps \<Longrightarrow> weight p \<le> weightList ps"
  by (induction ps) (auto intro: trans_le_add2)

lemma weight_options: "options p = Some es \<Longrightarrow> weightOptions es < weight p"
  by (cases p) simp

lemma weightOption_member: "e \<in> set es \<Longrightarrow> weightOption e \<le> weightOptions es"
  by (induction es) (auto intro: trans_le_add2)

lemma weight_optionValues: "optionValues e = Some vs \<Longrightarrow> weightList vs < weightOption e"
  by (cases e) (simp_all add: optionValues_def)

lemma find_Some_member: "find P xs = Some x \<Longrightarrow> x \<in> set xs"
  by (induction xs) (auto split: if_splits)

section \<open>Display conditions\<close>

text \<open>
  The values a display rule compares: the value at the rule's key, read from the root
  when the key starts with a slash and from the current level otherwise, an array being
  replaced by its elements.
\<close>

definition isExpression :: "jsval \<Rightarrow> bool" where
  "isExpression v = (case v of JStr s \<Rightarrow> charAt0 s = ''='' | _ \<Rightarrow> False)"

definition resolveValues :: "jsval \<Rightarrow> jsval \<Rightarrow> string \<Rightarrow> jsval list" where
  "resolveValues nodeValues nodeValuesRoot propertyName =
     (let value = (if charAt0 propertyName = ''/'' then get nodeValuesRoot (drop 1 propertyName)
                   else get nodeValues propertyName)
      in case value of JArr xs \<Rightarrow> xs | _ \<Rightarrow> [value])"

text \<open>
  The two loops of \<open>displayParameter\<close>. Each returns \<open>Some b\<close> when the function returns
  \<open>b\<close> from inside the loop, and \<open>None\<close> when the loop runs to its end.
\<close>

fun displayShowLoop :: "jsval \<Rightarrow> jsval \<Rightarrow> (string \<times> jsval list) list \<Rightarrow> bool option" where
  "displayShowLoop nodeValues nodeValuesRoot [] = None"
| "displayShowLoop nodeValues nodeValuesRoot ((propertyName, accepted) # rest) =
     (let values = resolveValues nodeValues nodeValuesRoot propertyName in
        if list_ex isExpression values then Some True
        else if values = [] \<or> \<not> list_ex (\<lambda>v. includesValue values v) accepted then Some False
        else displayShowLoop nodeValues nodeValuesRoot rest)"

fun displayHideLoop :: "jsval \<Rightarrow> jsval \<Rightarrow> (string \<times> jsval list) list \<Rightarrow> bool option" where
  "displayHideLoop nodeValues nodeValuesRoot [] = None"
| "displayHideLoop nodeValues nodeValuesRoot ((propertyName, rejected) # rest) =
     (let values = resolveValues nodeValues nodeValuesRoot propertyName in
        if values \<noteq> [] \<and> list_ex (\<lambda>v. includesValue values v) rejected then Some False
        else displayHideLoop nodeValues nodeValuesRoot rest)"

text \<open>
  \<open>displayParameter(nodeValues, parameter, nodeValuesRoot)\<close>; an omitted root is
  \<open>JUndefined\<close>, and \<open>nodeValuesRoot || nodeValues\<close> picks the values themselves then.
\<close>

definition displayParameter :: "jsval \<Rightarrow> INodeProperties \<Rightarrow> jsval \<Rightarrow> bool" where
  "displayParameter nodeValues parameter nodeValuesRoot0 =
     (case displayOptions parameter of
        None \<Rightarrow> True
      | Some opts \<Rightarrow>
          (let nodeValuesRoot = (if truthy nodeValuesRoot0 then nodeValuesRoot0 else nodeValues) in
           case (case displayShow opts of
                   None \<Rightarrow> None
                 | Some sh \<Rightarrow> displayShowLoop nodeValues nodeValuesRoot sh) of
             Some result \<Rightarrow> result
           | None \<Rightarrow>
               (case (case displayHide opts of
                        None \<Rightarrow> None
                      | Some hi \<Rightarrow> displayHideLoop nodeValues nodeValuesRoot hi) of
                  Some result \<Rightarrow> result
                | None \<Rightarrow> True)))"


section \<open>Dependencies and resolve order\<close>

text \<open>
  \<open>getParamterDependencies\<close>: for every field name the keys of its display rules, each
  key once. Fields of the same name share one entry.
\<close>

definition pushDependency ::
  "string \<Rightarrow> string \<Rightarrow> IParameterDependencies \<Rightarrow> IParameterDependencies" where
  "pushDependency propertyName parameterName dependencies =
     (let current = (case map_of dependencies propertyName of None \<Rightarrow> [] | Some ds \<Rightarrow> ds)
      in if parameterName \<in> set current then dependencies
         else AList.update propertyName (current @ [parameterName]) dependencies)"

definition displayRuleKeys :: "IDisplayOptions \<Rightarrow> string list" where
  "displayRuleKeys opts =
     (case displayShow opts of None \<Rightarrow> [] | Some sh \<Rightarrow> map fst sh) @
     (case displayHide opts of None \<Rightarrow> [] | Some hi \<Rightarrow> map fst hi)"

definition addParamterDependencies ::
  "INodeProperties \<Rightarrow> IParameterDependencies \<Rightarrow> IParameterDependencies" where
  "addParamterDependencies nodeProperties dependencies =
     (let dependencies1 =
            (if map_of dependencies (name nodeProperties) = None
             then AList.update (name nodeProperties) [] dependencies else dependencies)
      in case displayOptions nodeProperties of
           None \<Rightarrow> dependencies1
         | Some opts \<Rightarrow>
             fold (pushDependency (name nodeProperties)) (displayRuleKeys opts) dependencies1)"

definition getParamterDependencies :: "INodeProperties list \<Rightarrow> IParameterDependencies" where
  "getParamterDependencies nodePropertiesArray = fold addParamterDependencies nodePropertiesArray []"

text \<open>
  \<open>getParamterResolveOrder\<close>. The state of its \<open>while\<close> loop is a record of the local
  variables. \<open>resolveStep\<close> is one pass through the loop body: \<open>Inl\<close> when the function
  ends (with the order, or with an error), \<open>Inr\<close> with the next state otherwise.

  In the body, the \<open>continue\<close> statements inside \<open>for (const dependency of ...)\<close> continue
  that \<open>for\<close> loop, so the loop only appends the index to the queue once for each
  dependency that is neither resolved nor root-relative (\<open>requeue\<close>), and the lines after
  it run in every case: the index goes to the execution order and the name to the
  resolved names.
\<close>

record ResolveState =
  indexToResolve :: "nat list"
  executionOrder :: "nat list"
  resolvedParamters :: "string list"
  lastIndexLength :: nat
  lastIndexReduction :: int
  itterations :: int

definition requeue :: "string list \<Rightarrow> nat \<Rightarrow> string \<Rightarrow> nat list \<Rightarrow> nat list" where
  "requeue resolved index dependency queue =
     (if dependency \<notin> set resolved
      then (if charAt0 dependency = ''/'' then queue else queue @ [index])
      else queue)"

definition resolveStep ::
  "INodeProperties list \<Rightarrow> IParameterDependencies \<Rightarrow> ResolveState
     \<Rightarrow> (error + nat list) + ResolveState" where
  "resolveStep nodePropertiesArray parameterDependencies s =
     (case indexToResolve s of
        [] \<Rightarrow> Inl (Inr (executionOrder s))
      | index # rest \<Rightarrow>
          if \<not> index < length nodePropertiesArray then Inl (Inl TypeError)
          else
            let property = nodePropertiesArray ! index;
                its = itterations s + 1
            in case map_of parameterDependencies (name property) of
                 None \<Rightarrow> Inl (Inl TypeError)
               | Some deps \<Rightarrow>
                   if deps = [] then
                     Inr (s\<lparr> indexToResolve := rest,
                              executionOrder := executionOrder s @ [index],
                              resolvedParamters := resolvedParamters s @ [name property],
                              itterations := its \<rparr>)
                   else
                     let queue = fold (requeue (resolvedParamters s) index) deps rest;
                         reduction = (if length queue < lastIndexLength s then its
                                      else lastIndexReduction s)
                     in if its > reduction + int (length nodePropertiesArray)
                        then Inl (Inl (Error ''Could not resolve parameter depenencies. Max itterations got reached!''))
                        else Inr \<lparr> indexToResolve = queue,
                                    executionOrder = executionOrder s @ [index],
                                    resolvedParamters = resolvedParamters s @ [name property],
                                    lastIndexLength = length queue,
                                    lastIndexReduction = reduction,
                                    itterations = its \<rparr>)"

text \<open>
  The loop ends on every input. The measure, in lexicographic order: the number of field
  names not yet resolved; twice the number of queued indices whose dependencies are all
  resolved, plus the distance of the queue's length below \<open>lastIndexLength\<close>; the
  iterations left before the loop gives up.
\<close>

definition pendingCount ::
  "INodeProperties list \<Rightarrow> IParameterDependencies \<Rightarrow> string list \<Rightarrow> nat \<Rightarrow> nat" where
  "pendingCount props deps resolved i =
     (if i < length props then
        (case map_of deps (name (props ! i)) of
           None \<Rightarrow> 1
         | Some ds \<Rightarrow> length (filter (\<lambda>d. d \<notin> set resolved \<and> charAt0 d \<noteq> ''/'') ds))
      else 1)"

definition resolveMeasure ::
  "INodeProperties list \<Rightarrow> IParameterDependencies \<Rightarrow> ResolveState \<Rightarrow> nat \<times> nat \<times> nat" where
  "resolveMeasure props deps s =
     (card (set (map name props) - set (resolvedParamters s)),
      2 * length (filter (\<lambda>i. pendingCount props deps (resolvedParamters s) i = 0) (indexToResolve s))
        + (lastIndexLength s - length (indexToResolve s)),
      nat (lastIndexReduction s + int (length props) + 1 - itterations s))"

lemma fold_requeue:
  "fold (requeue resolved index) deps queue =
     queue @ replicate (length (filter (\<lambda>d. d \<notin> set resolved \<and> charAt0 d \<noteq> ''/'') deps)) index"
  by (induction deps arbitrary: queue) (auto simp: requeue_def replicate_append_same)

lemma pendingCount_cong:
  "set resolved' = set resolved \<Longrightarrow> pendingCount props deps resolved' = pendingCount props deps resolved"
  by (rule ext) (simp add: pendingCount_def split: option.split)

lemma resolveStep_decreases:
  assumes "resolveStep props deps s = Inr s'"
  shows "(resolveMeasure props deps s', resolveMeasure props deps s)
           \<in> less_than <*lex*> less_than <*lex*> less_than"
proof -
  from assms obtain index rest where q: "indexToResolve s = index # rest"
    by (cases "indexToResolve s") (auto simp: resolveStep_def)
  from assms q have valid: "index < length props"
    by (auto simp: resolveStep_def split: if_splits)
  define nm where "nm = name (props ! index)"
  from assms q valid obtain ds where ds: "map_of deps nm = Some ds"
    by (cases "map_of deps nm") (auto simp: resolveStep_def nm_def Let_def)
  define k where "k = length (filter (\<lambda>d. d \<notin> set (resolvedParamters s) \<and> charAt0 d \<noteq> ''/'') ds)"
  have pend: "pendingCount props deps (resolvedParamters s) index = k"
    using valid ds by (simp add: pendingCount_def nm_def k_def)
  have res': "resolvedParamters s' = resolvedParamters s @ [nm]"
    using assms q valid ds
    by (auto simp: resolveStep_def nm_def Let_def split: if_splits)
  have nmin: "nm \<in> set (map name props)" using valid by (auto simp: nm_def)
  show ?thesis
  proof (cases "nm \<in> set (resolvedParamters s)")
    case False
    have "set (map name props) - set (resolvedParamters s') \<subset> set (map name props) - set (resolvedParamters s)"
      using False nmin by (auto simp: res')
    then have "card (set (map name props) - set (resolvedParamters s'))
        < card (set (map name props) - set (resolvedParamters s))"
      by (intro psubset_card_mono) auto
    then show ?thesis by (simp add: resolveMeasure_def)
  next
    case True
    then have seteq: "set (resolvedParamters s') = set (resolvedParamters s)"
      by (auto simp: res')
    have A: "card (set (map name props) - set (resolvedParamters s'))
        = card (set (map name props) - set (resolvedParamters s))"
      by (simp add: seteq)
    note pc = pendingCount_cong [OF seteq, of props deps]
    let ?good = "\<lambda>i. pendingCount props deps (resolvedParamters s) i = 0"
    show ?thesis
    proof (cases "ds = []")
      case True
      then have s': "indexToResolve s' = rest" "lastIndexLength s' = lastIndexLength s"
        using assms q valid ds by (auto simp: resolveStep_def nm_def Let_def)
      have "k = 0" using True by (simp add: k_def)
      then have good: "?good index" using pend by simp
      have "2 * length (filter ?good rest) + (lastIndexLength s - length rest)
          < 2 * length (filter ?good (index # rest)) + (lastIndexLength s - length (index # rest))"
        using good by simp
      then show ?thesis using A by (simp add: resolveMeasure_def pc s' q)
    next
      case False
      define queue where "queue = rest @ replicate k index"
      have fq: "fold (requeue (resolvedParamters s) index) ds rest = queue"
        by (simp add: fold_requeue queue_def k_def)
      define red where "red = (if length queue < lastIndexLength s then itterations s + 1 else lastIndexReduction s)"
      have nothrow: "\<not> itterations s + 1 > red + int (length props)"
        using assms q valid ds False
        by (auto simp: resolveStep_def nm_def Let_def fq red_def split: if_splits)
      have s': "indexToResolve s' = queue" "lastIndexLength s' = length queue"
          "lastIndexReduction s' = red" "itterations s' = itterations s + 1"
        using assms q valid ds False nothrow
        by (auto simp: resolveStep_def nm_def Let_def fq red_def split: if_splits)
      show ?thesis
      proof (cases "k = 0")
        case True
        then have good: "?good index" using pend by simp
        have "queue = rest" using True by (simp add: queue_def)
        then have "2 * length (filter ?good queue) + (length queue - length queue)
            < 2 * length (filter ?good (index # rest)) + (lastIndexLength s - length (index # rest))"
          using good by simp
        then show ?thesis using A by (simp add: resolveMeasure_def pc s' q)
      next
        case kpos: False
        then have bad: "\<not> ?good index" using pend by simp
        have fl: "length (filter ?good queue) = length (filter ?good (index # rest))"
          using bad by (simp add: queue_def)
        have len: "length queue \<ge> length (index # rest)" using kpos by (simp add: queue_def)
        show ?thesis
        proof (cases "lastIndexLength s - length (index # rest) = 0")
          case False
          then have "2 * length (filter ?good queue) + (length queue - length queue)
            < 2 * length (filter ?good (index # rest)) + (lastIndexLength s - length (index # rest))"
            using fl by simp
          then show ?thesis using A by (simp add: resolveMeasure_def pc s' q)
        next
          case True
          then have "\<not> length queue < lastIndexLength s" using len by simp
          then have red: "red = lastIndexReduction s" by (simp add: red_def)
          have M2: "2 * length (filter ?good queue) + (length queue - length queue)
            = 2 * length (filter ?good (index # rest)) + (lastIndexLength s - length (index # rest))"
            using fl True by simp
          have C: "nat (red + int (length props) + 1 - (itterations s + 1))
               < nat (lastIndexReduction s + int (length props) + 1 - itterations s)"
            using nothrow red by simp
          show ?thesis using A M2 C by (simp add: resolveMeasure_def pc s' q)
        qed
      qed
    qed
  qed
qed

function resolveLoop ::
  "INodeProperties list \<Rightarrow> IParameterDependencies \<Rightarrow> ResolveState \<Rightarrow> error + nat list" where
  "resolveLoop nodePropertiesArray parameterDependencies s =
     (case resolveStep nodePropertiesArray parameterDependencies s of
        Inl result \<Rightarrow> result
      | Inr s' \<Rightarrow> resolveLoop nodePropertiesArray parameterDependencies s')"
  by pat_completeness auto
termination
proof (relation "inv_image (less_than <*lex*> less_than <*lex*> less_than)
                   (\<lambda>(props, deps, s). resolveMeasure props deps s)")
  show "wf (inv_image (less_than <*lex*> less_than <*lex*> less_than)
                   (\<lambda>(props, deps, s). resolveMeasure props deps s))"
    by (intro wf_inv_image wf_lex_prod wf_less_than)
next
  fix nodePropertiesArray parameterDependencies s s'
  assume "resolveStep nodePropertiesArray parameterDependencies s = Inr s'"
  then show "((nodePropertiesArray, parameterDependencies, s'), (nodePropertiesArray, parameterDependencies, s))
      \<in> inv_image (less_than <*lex*> less_than <*lex*> less_than)
                   (\<lambda>(props, deps, s). resolveMeasure props deps s)"
    using resolveStep_decreases by simp
qed

definition getParamterResolveOrder ::
  "INodeProperties list \<Rightarrow> IParameterDependencies \<Rightarrow> error + nat list" where
  "getParamterResolveOrder nodePropertiesArray parameterDependencies =
     resolveLoop nodePropertiesArray parameterDependencies
       \<lparr> indexToResolve = [0 ..< length nodePropertiesArray],
         executionOrder = [],
         resolvedParamters = [],
         lastIndexLength = length nodePropertiesArray,
         lastIndexReduction = - 1,
         itterations = 0 \<rparr>"


declare resolveLoop.simps [simp del]

section \<open>The value resolver\<close>

text \<open>
  \<open>getNodeParameters\<close> fills two objects, \<open>nodeParameters\<close> (the result) and
  \<open>nodeParametersFull\<close> (read by the display checks while it grows). The names that
  occur more than once in the schema list are collected first.
\<close>

definition duplicateNames :: "INodeProperties list \<Rightarrow> string list" where
  "duplicateNames nodePropertiesArray =
     fst (fold (\<lambda>nodeProperties (duplicateParameterNames, parameterNames).
            if name nodeProperties \<in> set parameterNames
            then (if name nodeProperties \<in> set duplicateParameterNames
                  then (duplicateParameterNames, parameterNames)
                  else (duplicateParameterNames @ [name nodeProperties], parameterNames))
            else (duplicateParameterNames, parameterNames @ [name nodeProperties]))
          nodePropertiesArray ([], []))"

record Resolved =
  nodeParameters :: jsobject
  nodeParametersFull :: jsobject

definition setParameter :: "string \<Rightarrow> jsval \<Rightarrow> Resolved \<Rightarrow> Resolved" where
  "setParameter key v st =
     \<lparr> nodeParameters = AList.update key v (nodeParameters st),
       nodeParametersFull = AList.update key v (nodeParametersFull st) \<rparr>"

text \<open>
  The branch for a field that is neither a collection nor a fixedCollection. The
  boolean of the result says whether the loop body ended with \<open>continue\<close>.
\<close>

definition resolveSimple ::
  "INodeProperties \<Rightarrow> jsval \<Rightarrow> bool \<Rightarrow> string option \<Rightarrow> string list \<Rightarrow> jsval \<Rightarrow> jsval
     \<Rightarrow> Resolved \<Rightarrow> bool \<times> Resolved" where
  "resolveSimple nodeProperties value returnDefaults parentType duplicateParameterNames
       nodeValuesDisplayCheck nodeValuesRoot st =
     (if type nodeProperties \<notin> set [''collection'', ''fixedCollection''] then
        if name nodeProperties \<in> set duplicateParameterNames
           \<and> \<not> displayParameter nodeValuesDisplayCheck nodeProperties nodeValuesRoot
        then (True, st)
        else if returnDefaults then
          (False,
           setParameter (name nodeProperties)
             (if type nodeProperties \<in> set [''boolean'', ''number'', ''options'']
              then (if value \<noteq> JUndefined then value else default nodeProperties)
              else (if truthy value then value else default nodeProperties)) st)
        else if (value \<noteq> default nodeProperties \<and> \<not> typeofObject value)
              \<or> (typeofObject value \<and> \<not> isEqual value (default nodeProperties))
              \<or> (value \<noteq> JUndefined \<and> parentType = Some ''collection'')
        then (True, setParameter (name nodeProperties) value st)
        else (False, st)
      else (False, st))"

text \<open>A collection with \<open>multipleValues\<close>: the array is passed through as it is.\<close>

definition resolveCollectionMultiple ::
  "INodeProperties \<Rightarrow> jsval \<Rightarrow> bool \<Rightarrow> Resolved \<Rightarrow> error + Resolved" where
  "resolveCollectionMultiple nodeProperties value returnDefaults st =
     (case (if value \<noteq> JUndefined
            then Inr (AList.update (name nodeProperties) value (nodeParameters st))
            else if returnDefaults then
              (case default nodeProperties of
                 JArr xs \<Rightarrow>
                   (case jsonClone (JArr xs) of
                      Inl e \<Rightarrow> Inl e
                    | Inr c \<Rightarrow> Inr (AList.update (name nodeProperties) c (nodeParameters st)))
               | _ \<Rightarrow> Inr (AList.update (name nodeProperties) (JArr []) (nodeParameters st)))
            else Inr (nodeParameters st)) of
        Inl e \<Rightarrow> Inl e
      | Inr np \<Rightarrow>
          Inr \<lparr> nodeParameters = np,
                nodeParametersFull =
                  AList.update (name nodeProperties) (getProperty (JObj np) (name nodeProperties))
                    (nodeParametersFull st) \<rparr>)"

definition optionNotFound :: "string \<Rightarrow> string \<Rightarrow> error" where
  "optionNotFound itemName propertyName =
     Error (''Could not find property option '' @ [CHR 0x22] @ itemName @ [CHR 0x22] @ '' for ''
            @ [CHR 0x22] @ propertyName @ [CHR 0x22])"

text \<open>
  The function calls itself inside three nested loops. Each loop body is a definition
  of its own that takes the function to call as its first argument; \<open>getNodeParameters\<close>
  passes itself. In order: the body of the loop over the elements of one group of a
  fixedCollection with \<open>multipleValues\<close>, the body of the loop over the group names, the
  part of the main loop for collections and fixedCollections, and the body of the main
  loop.
\<close>

type_synonym resolver =
  "INodeProperties list \<Rightarrow> jsval \<Rightarrow> bool \<Rightarrow> bool \<Rightarrow> bool \<Rightarrow> bool \<Rightarrow> jsval \<Rightarrow> string option
     \<Rightarrow> IParameterDependencies option \<Rightarrow> error + jsval"

definition resolveFixedElement ::
  "resolver \<Rightarrow> INodeProperties \<Rightarrow> bool \<Rightarrow> bool \<Rightarrow> jsval \<Rightarrow> string \<Rightarrow> jsval \<Rightarrow> jsval list
     \<Rightarrow> error + jsval list" where
  "resolveFixedElement recurse nodeProperties returnDefaults returnNoneDisplayed nodeValuesRoot itemName
       nodeValue tempArrayValue =
     (case options nodeProperties of
        None \<Rightarrow> Inl TypeError
      | Some opts \<Rightarrow>
          (case find (\<lambda>nodePropertyOptions. optionName nodePropertyOptions = itemName) opts of
             None \<Rightarrow> Inl (optionNotFound itemName (name nodeProperties))
           | Some nodePropertyOptions \<Rightarrow>
               (case optionValues nodePropertyOptions of
                  None \<Rightarrow> Inl TypeError
                | Some tempNodePropertiesArray \<Rightarrow>
                    (case recurse tempNodePropertiesArray nodeValue returnDefaults returnNoneDisplayed
                            False False nodeValuesRoot (Some (type nodeProperties)) None of
                       Inl e \<Rightarrow> Inl e
                     | Inr tempValue \<Rightarrow>
                         if tempValue \<noteq> JNull then Inr (tempArrayValue @ [tempValue])
                         else Inr tempArrayValue))))"

definition resolveFixedItem ::
  "resolver \<Rightarrow> INodeProperties \<Rightarrow> jsval \<Rightarrow> jsval \<Rightarrow> bool \<Rightarrow> bool \<Rightarrow> jsval \<Rightarrow> string \<Rightarrow> jsobject
     \<Rightarrow> error + jsobject" where
  "resolveFixedItem recurse nodeProperties value propertyValues returnDefaults returnNoneDisplayed
       nodeValuesRoot itemName collectionValues =
     (if isMultipleValues nodeProperties then
        (case iterate (getProperty propertyValues itemName) of
           Inl e \<Rightarrow> Inl e
         | Inr nodeValueList \<Rightarrow>
             (case foldE (resolveFixedElement recurse nodeProperties returnDefaults returnNoneDisplayed
                            nodeValuesRoot itemName) nodeValueList [] of
                Inl e \<Rightarrow> Inl e
              | Inr tempArrayValue \<Rightarrow>
                  Inr (AList.update itemName (JArr tempArrayValue) collectionValues)))
      else
        (case options nodeProperties of
           None \<Rightarrow> Inl TypeError
         | Some opts \<Rightarrow>
             (case (case find (\<lambda>data. optionName data = itemName) opts of
                      None \<Rightarrow> Inr []
                    | Some nodePropertyOptions \<Rightarrow>
                        (case readProperty value itemName of
                           Inl e \<Rightarrow> Inl e
                         | Inr itemValue \<Rightarrow>
                             (case optionValues nodePropertyOptions of
                                None \<Rightarrow> Inl TypeError
                              | Some tempNodePropertiesArray \<Rightarrow>
                                  (case recurse tempNodePropertiesArray itemValue returnDefaults
                                          returnNoneDisplayed False False nodeValuesRoot
                                          (Some (type nodeProperties)) None of
                                     Inl e \<Rightarrow> Inl e
                                   | Inr tempValue \<Rightarrow>
                                       if tempValue \<noteq> JNull then Inr (objectAssign [] tempValue)
                                       else Inr [])))) of
                Inl e \<Rightarrow> Inl e
              | Inr tempNodeParameters \<Rightarrow>
                  if tempNodeParameters \<noteq> []
                  then Inr (AList.update itemName (JObj tempNodeParameters) collectionValues)
                  else Inr collectionValues)))"

definition resolveComplex ::
  "resolver \<Rightarrow> INodeProperties \<Rightarrow> jsval \<Rightarrow> bool \<Rightarrow> bool \<Rightarrow> jsval \<Rightarrow> Resolved \<Rightarrow> error + Resolved" where
  "resolveComplex recurse nodeProperties value returnDefaults returnNoneDisplayed nodeValuesRoot st =
     (if type nodeProperties = ''collection'' then
        (if isMultipleValues nodeProperties
         then resolveCollectionMultiple nodeProperties value returnDefaults st
         else if value \<noteq> JUndefined then
           (case options nodeProperties of
              None \<Rightarrow> Inl TypeError
            | Some opts \<Rightarrow>
                (case recurse (map asNodeProperties opts) value returnDefaults returnNoneDisplayed
                        False False nodeValuesRoot (Some (type nodeProperties)) None of
                   Inl e \<Rightarrow> Inl e
                 | Inr tempNodeParameters \<Rightarrow>
                     if tempNodeParameters \<noteq> JNull
                     then Inr (setParameter (name nodeProperties) tempNodeParameters st)
                     else Inr st))
         else if returnDefaults then
           (case jsonClone (default nodeProperties) of
              Inl e \<Rightarrow> Inl e
            | Inr c \<Rightarrow> Inr (setParameter (name nodeProperties) c st))
         else Inr st)
      else if type nodeProperties = ''fixedCollection'' then
        (case (if returnDefaults \<and> value = JUndefined
               then jsonClone (default nodeProperties) else Inr value) of
           Inl e \<Rightarrow> Inl e
         | Inr propertyValues \<Rightarrow>
             (case foldE (resolveFixedItem recurse nodeProperties value propertyValues returnDefaults
                            returnNoneDisplayed nodeValuesRoot)
                     (objectKeys (if truthy propertyValues then propertyValues else JObj [])) [] of
                Inl e \<Rightarrow> Inl e
              | Inr collectionValues \<Rightarrow>
                  if collectionValues \<noteq> [] \<or> returnDefaults
                  then Inr (setParameter (name nodeProperties) (JObj collectionValues) st)
                  else Inr st))
      else Inr st)"

text \<open>
  The body of the main loop. \<open>baseline\<close> is the fully defaulted tree computed before
  the loop when hidden fields are to be left out; without it the display checks read
  \<open>nodeParametersFull\<close> as filled so far, and so does the root when the caller gave none.
\<close>

definition resolveProperty ::
  "resolver \<Rightarrow> INodeProperties list \<Rightarrow> jsval \<Rightarrow> bool \<Rightarrow> bool \<Rightarrow> bool \<Rightarrow> jsval \<Rightarrow> string option
     \<Rightarrow> string list \<Rightarrow> jsval option \<Rightarrow> nat \<Rightarrow> Resolved \<Rightarrow> error + Resolved" where
  "resolveProperty recurse nodePropertiesArray nodeValues returnDefaults returnNoneDisplayed
       onlySimpleTypes nodeValuesRoot0 parentType duplicateParameterNames baseline parameterIndex st =
     (if \<not> parameterIndex < length nodePropertiesArray then Inl TypeError
      else
        let nodeProperties = nodePropertiesArray ! parameterIndex;
            nodeValuesDisplayCheck =
              (case baseline of Some b \<Rightarrow> b | None \<Rightarrow> JObj (nodeParametersFull st));
            nodeValuesRoot =
              (if truthy nodeValuesRoot0 then nodeValuesRoot0 else nodeValuesDisplayCheck)
        in
        case readProperty nodeValues (name nodeProperties) of
          Inl e \<Rightarrow> Inl e
        | Inr value \<Rightarrow>
            if value = JUndefined \<and> (returnDefaults = False \<or> parentType = Some ''collection'')
            then Inr st
            else if returnNoneDisplayed = False
                    \<and> \<not> displayParameter nodeValuesDisplayCheck nodeProperties nodeValuesRoot
            then Inr st
            else
              (case resolveSimple nodeProperties value returnDefaults parentType
                      duplicateParameterNames nodeValuesDisplayCheck nodeValuesRoot st of
                 (True, st1) \<Rightarrow> Inr st1
               | (False, st1) \<Rightarrow>
                   if onlySimpleTypes then Inr st1
                   else resolveComplex recurse nodeProperties value returnDefaults returnNoneDisplayed
                          nodeValuesRoot st1))"

text \<open>
  Each body calls the function only on schemas below the field at hand, whatever the
  values are: this is what the definition of \<open>getNodeParameters\<close> needs to know of them.
\<close>

lemma resolveFixedElement_cong:
  assumes "\<And>opts e vs v rd rnd a b r p d. options nodeProperties = Some opts \<Longrightarrow> e \<in> set opts \<Longrightarrow>
           optionValues e = Some vs \<Longrightarrow> f vs v rd rnd a b r p d = g vs v rd rnd a b r p d"
  shows "resolveFixedElement f nodeProperties rd rnd root itemName nodeValue acc
       = resolveFixedElement g nodeProperties rd rnd root itemName nodeValue acc"
proof (cases "options nodeProperties")
  case None
  then show ?thesis by (simp add: resolveFixedElement_def)
next
  case (Some opts)
  show ?thesis
  proof (cases "find (\<lambda>nodePropertyOptions. optionName nodePropertyOptions = itemName) opts")
    case None
    then show ?thesis by (simp add: resolveFixedElement_def Some)
  next
    case found: (Some e)
    then have mem: "e \<in> set opts" by (rule find_Some_member)
    show ?thesis
    proof (cases "optionValues e")
      case None
      then show ?thesis by (simp add: resolveFixedElement_def Some found)
    next
      case vs: (Some vs)
      show ?thesis
        by (simp add: resolveFixedElement_def Some found vs assms [OF Some mem vs])
    qed
  qed
qed

lemma resolveFixedItem_cong:
  assumes "\<And>opts e vs v rd rnd a b r p d. options nodeProperties = Some opts \<Longrightarrow> e \<in> set opts \<Longrightarrow>
           optionValues e = Some vs \<Longrightarrow> f vs v rd rnd a b r p d = g vs v rd rnd a b r p d"
  shows "resolveFixedItem f nodeProperties value propertyValues rd rnd root itemName cv
       = resolveFixedItem g nodeProperties value propertyValues rd rnd root itemName cv"
proof -
  have el: "resolveFixedElement f nodeProperties rd rnd root itemName
      = resolveFixedElement g nodeProperties rd rnd root itemName"
    by (intro ext resolveFixedElement_cong) (rule assms)
  show ?thesis
  proof (cases "options nodeProperties")
    case None
    show ?thesis unfolding resolveFixedItem_def el by (simp add: None)
  next
    case (Some opts)
    show ?thesis
    proof (cases "find (\<lambda>data. optionName data = itemName) opts")
      case None
      show ?thesis unfolding resolveFixedItem_def el by (simp add: Some None)
    next
      case found: (Some e)
      then have mem: "e \<in> set opts" by (rule find_Some_member)
      show ?thesis
      proof (cases "optionValues e")
        case None
        show ?thesis unfolding resolveFixedItem_def el
          by (simp add: Some found None cong: sum.case_cong)
      next
        case vs: (Some vs)
        show ?thesis unfolding resolveFixedItem_def el
          by (simp add: Some found vs assms [OF Some mem vs] cong: sum.case_cong)
      qed
    qed
  qed
qed

lemma resolveComplex_cong:
  assumes "\<And>ps v rd rnd a b r p d. weightList ps < weight nodeProperties \<Longrightarrow>
           f ps v rd rnd a b r p d = g ps v rd rnd a b r p d"
  shows "resolveComplex f nodeProperties value rd rnd root st
       = resolveComplex g nodeProperties value rd rnd root st"
proof -
  have item: "resolveFixedItem f nodeProperties value pv rd rnd root
            = resolveFixedItem g nodeProperties value pv rd rnd root" for pv
  proof (intro ext resolveFixedItem_cong)
    fix opts e vs v rd rnd a b r p d
    assume "options nodeProperties = Some opts" "e \<in> set opts" "optionValues e = Some vs"
    then have "weightList vs < weight nodeProperties"
      using weightOption_member [of e opts] weight_optionValues [of e vs] weight_options [of nodeProperties opts]
      by linarith
    then show "f vs v rd rnd a b r p d = g vs v rd rnd a b r p d" by (rule assms)
  qed
  have coll: "f (map asNodeProperties opts) v rd rnd a b r p d = g (map asNodeProperties opts) v rd rnd a b r p d"
    if "options nodeProperties = Some opts" for opts v rd rnd a b r p d
    using weightList_map_asNodeProperties [of opts] weight_options [OF that]
    by (intro assms) linarith
  show ?thesis
    unfolding resolveComplex_def item by (simp add: coll split: option.splits)
qed

lemma resolveProperty_cong [fundef_cong]:
  assumes "nodePropertiesArray = nodePropertiesArray'" "nodeValues = nodeValues'"
    "returnDefaults = returnDefaults'" "returnNoneDisplayed = returnNoneDisplayed'"
    "onlySimpleTypes = onlySimpleTypes'" "nodeValuesRoot0 = nodeValuesRoot0'" "parentType = parentType'"
    "duplicateParameterNames = duplicateParameterNames'" "baseline = baseline'"
    "parameterIndex = parameterIndex'" "st = st'"
    and "\<And>ps v rd rnd a b r p d. weightList ps < weightList nodePropertiesArray' \<Longrightarrow>
           f ps v rd rnd a b r p d = g ps v rd rnd a b r p d"
  shows "resolveProperty f nodePropertiesArray nodeValues returnDefaults returnNoneDisplayed
           onlySimpleTypes nodeValuesRoot0 parentType duplicateParameterNames baseline parameterIndex st
       = resolveProperty g nodePropertiesArray' nodeValues' returnDefaults' returnNoneDisplayed'
           onlySimpleTypes' nodeValuesRoot0' parentType' duplicateParameterNames' baseline' parameterIndex' st'"
proof (cases "parameterIndex' < length nodePropertiesArray'")
  case False
  then show ?thesis unfolding assms(1-11) by (simp add: resolveProperty_def)
next
  case True
  have cx: "resolveComplex f (nodePropertiesArray' ! parameterIndex')
      = resolveComplex g (nodePropertiesArray' ! parameterIndex')"
  proof (intro ext resolveComplex_cong)
    fix ps v rd rnd a b r p d
    assume "weightList ps < weight (nodePropertiesArray' ! parameterIndex')"
    then have "weightList ps < weightList nodePropertiesArray'"
      using weight_nth [OF True] by linarith
    then show "f ps v rd rnd a b r p d = g ps v rd rnd a b r p d" by (rule assms(12))
  qed
  show ?thesis
    unfolding assms(1-11) resolveProperty_def Let_def cx by (rule refl)
qed

function getNodeParameters :: resolver where
  "getNodeParameters nodePropertiesArray nodeValues returnDefaults returnNoneDisplayed onlySimpleTypes
       dataIsResolved nodeValuesRoot0 parentType parameterDependencies0 =
     (let parameterDependencies =
            (case parameterDependencies0 of
               None \<Rightarrow> getParamterDependencies nodePropertiesArray
             | Some deps \<Rightarrow> deps);
          duplicateParameterNames = duplicateNames nodePropertiesArray
      in
      case (if \<not> dataIsResolved \<and> \<not> returnNoneDisplayed
            then (case getNodeParameters nodePropertiesArray nodeValues True True True True
                         nodeValuesRoot0 parentType (Some parameterDependencies) of
                    Inl e \<Rightarrow> Inl e
                  | Inr nodeValuesDisplayCheck \<Rightarrow> Inr (Some nodeValuesDisplayCheck))
            else Inr None) of
        Inl e \<Rightarrow> Inl e
      | Inr baseline \<Rightarrow>
          (case getParamterResolveOrder nodePropertiesArray parameterDependencies of
             Inl e \<Rightarrow> Inl e
           | Inr parameterItterationOrderIndex \<Rightarrow>
               (case foldE (resolveProperty getNodeParameters nodePropertiesArray nodeValues returnDefaults
                              returnNoneDisplayed onlySimpleTypes nodeValuesRoot0 parentType
                              duplicateParameterNames baseline)
                       parameterItterationOrderIndex
                       \<lparr> nodeParameters = [], nodeParametersFull = [] \<rparr> of
                  Inl e \<Rightarrow> Inl e
                | Inr st \<Rightarrow> Inr (JObj (nodeParameters st)))))"
  by pat_completeness auto
termination
  apply (relation "inv_image (less_than <*lex*> less_than)
      (\<lambda>(ps, nv, rd, rnd, only, resolved, root, parent, deps).
          (weightList ps, if \<not> resolved \<and> \<not> rnd then 1 else (0::nat)))")
  subgoal by (intro wf_inv_image wf_lex_prod wf_less_than)
  subgoal by simp
  subgoal by simp
  done


declare getNodeParameters.simps [simp del]

section \<open>Validation\<close>

text \<open>
  \<open>INodeIssues\<close>: two optional flags and two optional maps from a field name to its
  messages. \<open>mergeIssues\<close> changes its destination in place; here it returns the new
  destination. Its loop over \<open>['parameters', 'credentials']\<close> is written out for the two
  properties, and the loop over the keys of a source property walks its entries.
\<close>

type_synonym INodeIssueObjectProperty = "(string \<times> string list) list"

record INodeIssues =
  execution :: "bool option"
  parameters :: "INodeIssueObjectProperty option"
  credentials :: "INodeIssueObjectProperty option"
  typeUnknown :: "bool option"


definition pushIssues ::
  "string \<times> string list \<Rightarrow> INodeIssueObjectProperty \<Rightarrow> INodeIssueObjectProperty" where
  "pushIssues entry destinationProperty =
     (case entry of (parameterName, messages) \<Rightarrow>
        AList.update parameterName
          ((case map_of destinationProperty parameterName of None \<Rightarrow> [] | Some old \<Rightarrow> old) @ messages)
          destinationProperty)"

definition mergeIssueProperty ::
  "INodeIssueObjectProperty option \<Rightarrow> INodeIssueObjectProperty option
     \<Rightarrow> INodeIssueObjectProperty option" where
  "mergeIssueProperty destinationProperty sourceProperty =
     (case sourceProperty of
        None \<Rightarrow> destinationProperty
      | Some sp \<Rightarrow>
          Some (fold pushIssues sp (case destinationProperty of None \<Rightarrow> [] | Some dp \<Rightarrow> dp)))"

definition mergeIssues :: "INodeIssues \<Rightarrow> INodeIssues option \<Rightarrow> INodeIssues" where
  "mergeIssues destination source =
     (case source of
        None \<Rightarrow> destination
      | Some src \<Rightarrow>
          \<lparr> execution = (if execution src = Some True then Some True else execution destination),
            parameters = mergeIssueProperty (parameters destination) (parameters src),
            credentials = mergeIssueProperty (credentials destination) (credentials src),
            typeUnknown = (if typeUnknown src = Some True then Some True else typeUnknown destination) \<rparr>)"












section \<open>Notions of the statements and example schemas\<close>

text \<open>
  A show rule passes on given values when the values resolved for its key are not empty
  and one of them is in its accepted set.
\<close>

definition showPasses :: "jsval \<Rightarrow> jsval \<Rightarrow> string \<times> jsval list \<Rightarrow> bool" where
  "showPasses nodeValues nodeValuesRoot rule =
     (let values = resolveValues nodeValues nodeValuesRoot (fst rule)
      in values \<noteq> [] \<and> list_ex (\<lambda>v. includesValue values v) (snd rule))"




text \<open>
  The messages an issue property holds for a field name (none when the property or the
  name is absent), and the issue objects JavaScript can build: the keys of their
  properties are pairwise distinct.
\<close>

definition messagesOf :: "INodeIssueObjectProperty option \<Rightarrow> string \<Rightarrow> string list" where
  "messagesOf property parameterName =
     (case property of
        None \<Rightarrow> []
      | Some p \<Rightarrow> (case map_of p parameterName of None \<Rightarrow> [] | Some messages \<Rightarrow> messages))"

definition distinctKeys :: "INodeIssueObjectProperty option \<Rightarrow> bool" where
  "distinctKeys property = (case property of None \<Rightarrow> True | Some p \<Rightarrow> distinct (map fst p))"

definition wellFormedIssues :: "INodeIssues \<Rightarrow> bool" where
  "wellFormedIssues issues = (distinctKeys (parameters issues) \<and> distinctKeys (credentials issues))"

text \<open>
  Schemas for the examples: string fields with one show rule; a boolean, a string and a
  number with defaults; a collection with a declared default; the poll times of a
  polling node (\<open>getSpecialNodeParameters\<close>) cut down to one field of its group; a
  required string.
\<close>

definition stringField :: "string \<Rightarrow> IDisplayOptions option \<Rightarrow> INodeProperties" where
  "stringField fieldName conditions =
     INodeProperties fieldName fieldName ''string'' None (JStr []) conditions None None"

definition showWhen :: "string \<Rightarrow> jsval list \<Rightarrow> IDisplayOptions option" where
  "showWhen key accepted = Some \<lparr> displayShow = Some [(key, accepted)], displayHide = None \<rparr>"

definition fieldB :: INodeProperties where
  "fieldB = INodeProperties ''B'' ''B'' ''string'' None (JStr [])
      (Some \<lparr> displayShow = Some [(''A'', [JStr ''x''])], displayHide = None \<rparr>) None None"

definition fieldC :: INodeProperties where
  "fieldC = INodeProperties ''C'' ''C'' ''string'' None (JStr [])
      (Some \<lparr> displayShow = Some [(''A'', [JStr ''x'']), (''B'', [JStr ''y''])], displayHide = None \<rparr>)
      None None"




definition pollTimes :: "bool option \<Rightarrow> INodeProperties" where
  "pollTimes multiple =
     INodeProperties ''Poll Times'' ''pollTimes'' ''fixedCollection''
       (Some \<lparr> multipleValues = multiple \<rparr>) (JObj []) None
       (Some [PropertyCollection ''Item'' ''item''
                [INodeProperties ''Mode'' ''mode'' ''options'' None (JStr ''everyDay'') None None None]])
       None"


section \<open>Facts about the loops\<close>

text \<open>
  Properties of the definitions above that several of the theorems below rest on.

  The resolve order never loses an index: whatever a pass of the loop takes off the
  queue it appends to the execution order.
\<close>

lemma resolveStep_covers:
  assumes "resolveStep props deps s = Inr s'"
  shows "set (indexToResolve s) \<union> set (executionOrder s)
           \<subseteq> set (indexToResolve s') \<union> set (executionOrder s')"
proof -
  from assms obtain index rest where q: "indexToResolve s = index # rest"
    by (cases "indexToResolve s") (auto simp: resolveStep_def)
  from assms q show ?thesis
    by (auto simp: resolveStep_def Let_def fold_requeue split: if_splits option.splits)
qed

lemma resolveLoop_covers:
  "resolveLoop props deps s = Inr order
     \<Longrightarrow> set (indexToResolve s) \<union> set (executionOrder s) \<subseteq> set order"
proof (induction props deps s rule: resolveLoop.induct)
  case (1 props deps s)
  show ?case
  proof (cases "resolveStep props deps s")
    case (Inl result)
    then have r: "result = Inr order" using "1.prems" by (simp add: resolveLoop.simps)
    from Inl r show ?thesis
      by (auto simp: resolveStep_def Let_def split: list.splits if_splits option.splits)
  next
    case (Inr s')
    then have "resolveLoop props deps s' = Inr order" using "1.prems" by (simp add: resolveLoop.simps)
    then have "set (indexToResolve s') \<union> set (executionOrder s') \<subseteq> set order"
      using "1.IH" [OF Inr] by simp
    then show ?thesis using resolveStep_covers [OF Inr] by blast
  qed
qed

lemma getParamterResolveOrder_covers:
  "getParamterResolveOrder props deps = Inr order \<Longrightarrow> i < length props \<Longrightarrow> i \<in> set order"
proof -
  assume a: "getParamterResolveOrder props deps = Inr order" and i: "i < length props"
  have "set [0 ..< length props] \<subseteq> set order"
    using resolveLoop_covers [OF a [unfolded getParamterResolveOrder_def]] by simp
  then show ?thesis using i by auto
qed


text \<open>Loops that stop at the first error.\<close>

lemma foldE_error:
  "x \<in> set xs \<Longrightarrow> (\<And>s. \<exists>e. f x s = Inl e) \<Longrightarrow> \<exists>e. foldE f xs s = Inl e"
proof (induction xs arbitrary: s)
  case Nil
  then show ?case by simp
next
  case (Cons y ys)
  show ?case
  proof (cases "f y s")
    case (Inl e)
    then show ?thesis by simp
  next
    case (Inr s')
    show ?thesis
    proof (cases "x = y")
      case True
      then show ?thesis using Cons.prems(2) [of s] Inr by simp
    next
      case False
      then have "x \<in> set ys" using Cons.prems(1) by simp
      then show ?thesis using Cons.IH [of s'] Cons.prems(2) Inr by simp
    qed
  qed
qed




lemma sum_case_same: "(case m of Inl e \<Rightarrow> Inl e | Inr s \<Rightarrow> Inr s) = m"
  by (cases m) simp_all


text \<open>
  \<open>getNodeParameters\<close> with its local definitions written out, and on a schema list of
  one field without display conditions.
\<close>

lemma getNodeParameters_unfold:
  "getNodeParameters nodePropertiesArray nodeValues returnDefaults returnNoneDisplayed
       onlySimpleTypes dataIsResolved nodeValuesRoot0 parentType parameterDependencies
   = (case (if \<not> dataIsResolved \<and> \<not> returnNoneDisplayed
            then (case getNodeParameters nodePropertiesArray nodeValues True True True True
                         nodeValuesRoot0 parentType
                         (Some (case parameterDependencies of
                                  None \<Rightarrow> getParamterDependencies nodePropertiesArray
                                | Some deps \<Rightarrow> deps)) of
                    Inl e \<Rightarrow> Inl e
                  | Inr nodeValuesDisplayCheck \<Rightarrow> Inr (Some nodeValuesDisplayCheck))
            else Inr None) of
        Inl e \<Rightarrow> Inl e
      | Inr baseline \<Rightarrow>
          (case getParamterResolveOrder nodePropertiesArray
                  (case parameterDependencies of
                     None \<Rightarrow> getParamterDependencies nodePropertiesArray
                   | Some deps \<Rightarrow> deps) of
             Inl e \<Rightarrow> Inl e
           | Inr parameterItterationOrderIndex \<Rightarrow>
               (case foldE (resolveProperty getNodeParameters nodePropertiesArray nodeValues returnDefaults
                              returnNoneDisplayed onlySimpleTypes nodeValuesRoot0 parentType
                              (duplicateNames nodePropertiesArray) baseline)
                       parameterItterationOrderIndex
                       \<lparr> nodeParameters = [], nodeParametersFull = [] \<rparr> of
                  Inl e \<Rightarrow> Inl e
                | Inr st \<Rightarrow> Inr (JObj (nodeParameters st)))))"
  by (rule getNodeParameters.simps [unfolded Let_def])

lemma single_dependencies:
  "displayOptions nodeProperties = None
     \<Longrightarrow> getParamterDependencies [nodeProperties] = [(name nodeProperties, [])]"
  by (simp add: getParamterDependencies_def addParamterDependencies_def)

lemma single_order:
  "getParamterResolveOrder [nodeProperties] [(name nodeProperties, [])] = Inr [0]"
  by (simp add: getParamterResolveOrder_def resolveLoop.simps resolveStep_def)

lemma single_duplicateNames: "duplicateNames [nodeProperties] = []"
  by (simp add: duplicateNames_def)

lemma getNodeParameters_single:
  assumes "displayOptions nodeProperties = None"
  shows "getNodeParameters [nodeProperties] nodeValues returnDefaults returnNoneDisplayed onlySimpleTypes
           dataIsResolved nodeValuesRoot0 parentType None
       = (case (if \<not> dataIsResolved \<and> \<not> returnNoneDisplayed
            then (case getNodeParameters [nodeProperties] nodeValues True True True True
                         nodeValuesRoot0 parentType (Some [(name nodeProperties, [])]) of
                    Inl e \<Rightarrow> Inl e
                  | Inr nodeValuesDisplayCheck \<Rightarrow> Inr (Some nodeValuesDisplayCheck))
            else Inr None) of
           Inl e \<Rightarrow> Inl e
         | Inr baseline \<Rightarrow>
            (case resolveProperty getNodeParameters [nodeProperties] nodeValues returnDefaults
                    returnNoneDisplayed onlySimpleTypes nodeValuesRoot0 parentType [] baseline 0
                    \<lparr> nodeParameters = [], nodeParametersFull = [] \<rparr> of
               Inl e \<Rightarrow> Inl e
             | Inr st \<Rightarrow> Inr (JObj (nodeParameters st))))"
  by (subst getNodeParameters_unfold)
     (simp add: single_dependencies [OF assms] single_order single_duplicateNames sum_case_same
        cong: sum.case_cong if_cong)

lemma getNodeParameters_single_given:
  shows "getNodeParameters [nodeProperties] nodeValues returnDefaults True onlySimpleTypes
           dataIsResolved nodeValuesRoot0 parentType (Some [(name nodeProperties, [])])
       = (case resolveProperty getNodeParameters [nodeProperties] nodeValues returnDefaults
                    True onlySimpleTypes nodeValuesRoot0 parentType [] None 0
                    \<lparr> nodeParameters = [], nodeParametersFull = [] \<rparr> of
               Inl e \<Rightarrow> Inl e
             | Inr st \<Rightarrow> Inr (JObj (nodeParameters st)))"
  by (subst getNodeParameters_unfold)
     (simp add: single_order single_duplicateNames sum_case_same cong: sum.case_cong)












section \<open>C1: an expression makes a field visible\<close>

lemma displayShowLoop_expression:
  assumes "list_ex isExpression (resolveValues nodeValues nodeValuesRoot key)"
    and "list_all (\<lambda>(k, acc). list_ex isExpression (resolveValues nodeValues nodeValuesRoot k)
            \<or> (resolveValues nodeValues nodeValuesRoot k \<noteq> []
                \<and> list_ex (\<lambda>v. includesValue (resolveValues nodeValues nodeValuesRoot k) v) acc)) before"
  shows "displayShowLoop nodeValues nodeValuesRoot (before @ (key, accepted) # after) = Some True"
  using assms(2)
proof (induction before)
  case Nil
  then show ?case using assms(1) by simp
next
  case (Cons kv before)
  obtain k acc where kv: "kv = (k, acc)" by (cases kv)
  from Cons show ?case by (auto simp: kv Let_def)
qed

text \<open>
  C1 (amended). \<open>displayParameter\<close> walks the keys of \<open>displayOptions.show\<close> in their
  order and returns at the first key that decides. If the value resolved for a show key
  (from the root when the key starts with a slash, else from the current level, an array
  replaced by its elements) contains a string whose first character is \<open>=\<close>, and every
  show key before it resolves to values of which one is in that key's accepted set, then
  \<open>displayParameter\<close> returns true, whatever the accepted set of the key itself, the
  later keys and the hide rules are.
\<close>

theorem displayParameter_expression_visible:
  assumes "displayOptions parameter = Some opts"
    and "displayShow opts = Some (before @ (key, accepted) # after)"
    and "nodeValuesRoot = (if truthy nodeValuesRoot0 then nodeValuesRoot0 else nodeValues)"
    and "list_ex isExpression (resolveValues nodeValues nodeValuesRoot key)"
    and "list_all (showPasses nodeValues nodeValuesRoot) before"
  shows "displayParameter nodeValues parameter nodeValuesRoot0"
proof -
  have "list_all (\<lambda>(k, acc). list_ex isExpression (resolveValues nodeValues nodeValuesRoot k)
            \<or> (resolveValues nodeValues nodeValuesRoot k \<noteq> []
                \<and> list_ex (\<lambda>v. includesValue (resolveValues nodeValues nodeValuesRoot k) v) acc)) before"
    using assms(5) by (auto simp: list_all_iff showPasses_def Let_def)
  then have "displayShowLoop nodeValues nodeValuesRoot (before @ (key, accepted) # after) = Some True"
    by (rule displayShowLoop_expression [OF assms(4)])
  then show ?thesis
    using assms(1,2,3) by (simp add: displayParameter_def Let_def)
qed

text \<open>
  The example of the specification: field \<open>B\<close> is shown when \<open>A\<close> is \<open>x\<close>, and the value
  of \<open>A\<close> is the expression \<open>=expr()\<close>, which is not \<open>x\<close>.
\<close>

theorem displayParameter_expression_visible_witness:
  "list_ex isExpression (resolveValues (JObj [(''A'', JStr ''=expr()'')]) (JObj [(''A'', JStr ''=expr()'')]) ''A'')
   \<and> \<not> includesValue [JStr ''=expr()''] (JStr ''x'')
   \<and> displayParameter (JObj [(''A'', JStr ''=expr()'')]) fieldB JUndefined"
proof -
  have e: "list_ex isExpression (resolveValues (JObj [(''A'', JStr ''=expr()'')]) (JObj [(''A'', JStr ''=expr()'')]) ''A'')"
    by code_simp
  have n: "\<not> includesValue [JStr ''=expr()''] (JStr ''x'')" by code_simp
  have "displayParameter (JObj [(''A'', JStr ''=expr()'')]) fieldB JUndefined"
    by (rule displayParameter_expression_visible [where before = "[]" and key = "''A''"
          and accepted = "[JStr ''x'']" and after = "[]"
          and opts = "\<lparr> displayShow = Some [(''A'', [JStr ''x''])], displayHide = None \<rparr>"
          and nodeValuesRoot = "JObj [(''A'', JStr ''=expr()'')]"])
       (simp_all add: fieldB_def truthy_def e)
  then show ?thesis using e n by simp
qed

text \<open>
  As C1 is stated, any show key with an expression would do. That fails when an earlier
  key fails first:
  field \<open>C\<close> is shown when \<open>A\<close> is \<open>x\<close> and \<open>B\<close> is \<open>y\<close>; with \<open>A = z\<close> and
  \<open>B = =expr()\<close> the loop returns false at \<open>A\<close> and never reads \<open>B\<close>.
\<close>

theorem displayParameter_expression_counterexample:
  "displayOptions fieldC = Some \<lparr> displayShow = Some [(''A'', [JStr ''x'']), (''B'', [JStr ''y''])], displayHide = None \<rparr>
   \<and> list_ex isExpression
        (resolveValues (JObj [(''A'', JStr ''z''), (''B'', JStr ''=expr()'')])
           (JObj [(''A'', JStr ''z''), (''B'', JStr ''=expr()'')]) ''B'')
   \<and> \<not> displayParameter (JObj [(''A'', JStr ''z''), (''B'', JStr ''=expr()'')]) fieldC JUndefined"
  by code_simp

section \<open>C2, C3: the resolve order on two fields\<close>

text \<open>
  C2 says that on an acyclic dependency graph the order holds each index once and every
  field after its dependencies. What the code computes for field \<open>A\<close>, shown when \<open>B\<close>
  is \<open>x\<close>, followed by field \<open>B\<close>: index 0 is queued again because \<open>B\<close> is not
  resolved yet, and is appended to the order all the same; the order is \<open>[0, 1, 0]\<close>,
  with \<open>A\<close> twice and before the field it depends on.
\<close>

theorem resolveOrder_acyclic_repeats_index:
  "getParamterDependencies [stringField ''A'' (showWhen ''B'' [JStr ''x'']), stringField ''B'' None]
     = [(''A'', [''B'']), (''B'', [])]
   \<and> getParamterResolveOrder [stringField ''A'' (showWhen ''B'' [JStr ''x'']), stringField ''B'' None]
       (getParamterDependencies [stringField ''A'' (showWhen ''B'' [JStr ''x'']), stringField ''B'' None])
     = Inr [0, 1, 0]"
  by code_simp

text \<open>
  C3 says that two fields each conditioned on the other make the function throw. What
  the code computes for \<open>A\<close> shown when \<open>B\<close> is \<open>x\<close> and \<open>B\<close> shown when \<open>A\<close> is
  \<open>y\<close>: it returns the order \<open>[0, 1, 0]\<close>.
\<close>

theorem resolveOrder_cycle_returns_order:
  "getParamterDependencies
       [stringField ''A'' (showWhen ''B'' [JStr ''x'']), stringField ''B'' (showWhen ''A'' [JStr ''y''])]
     = [(''A'', [''B'']), (''B'', [''A''])]
   \<and> getParamterResolveOrder
       [stringField ''A'' (showWhen ''B'' [JStr ''x'']), stringField ''B'' (showWhen ''A'' [JStr ''y''])]
       (getParamterDependencies
          [stringField ''A'' (showWhen ''B'' [JStr ''x'']), stringField ''B'' (showWhen ''A'' [JStr ''y''])])
     = Inr [0, 1, 0]"
  by code_simp

section \<open>C4: resolving the resolved tree again\<close>














section \<open>C5: a group name the fixedCollection does not declare\<close>

lemma find_None_unknown: "itemName \<notin> optionName ` set opts \<Longrightarrow> find (\<lambda>e. optionName e = itemName) opts = None"
  by (auto simp: find_None_iff)

lemma resolveFixedItem_unknown_multiple:
  assumes "isMultipleValues nodeProperties" "options nodeProperties = Some opts"
    "itemName \<notin> optionName ` set opts"
    "getProperty propertyValues itemName = JArr (nodeValue # nodeValueList)"
  shows "resolveFixedItem recurse nodeProperties value propertyValues returnDefaults returnNoneDisplayed
           nodeValuesRoot itemName collectionValues
         = Inl (optionNotFound itemName (name nodeProperties))"
  using assms
  by (simp add: resolveFixedItem_def resolveFixedElement_def iterate_def find_None_unknown)

lemma resolveFixedItem_unknown_single:
  assumes "\<not> isMultipleValues nodeProperties" "options nodeProperties = Some opts"
    "itemName \<notin> optionName ` set opts"
  shows "resolveFixedItem recurse nodeProperties value propertyValues returnDefaults returnNoneDisplayed
           nodeValuesRoot itemName collectionValues
         = Inr collectionValues"
  using assms by (simp add: resolveFixedItem_def find_None_unknown)

lemma resolveComplex_unknown_multiple:
  assumes "type nodeProperties = ''fixedCollection''" "isMultipleValues nodeProperties"
    "options nodeProperties = Some opts" "itemName \<notin> optionName ` set opts"
    "map_of groups itemName = Some (JArr (nodeValue # nodeValueList))"
  shows "\<exists>e. resolveComplex recurse nodeProperties (JObj groups) returnDefaults returnNoneDisplayed
           nodeValuesRoot st = Inl e"
proof -
  have mem: "itemName \<in> set (objectKeys (JObj groups))"
    using assms(5) by (auto simp: objectKeys_def dest: map_of_SomeD intro: rev_image_eqI)
  have gp: "getProperty (JObj groups) itemName = JArr (nodeValue # nodeValueList)"
    using assms(5) by (simp add: getProperty_def)
  have "\<exists>e. foldE (resolveFixedItem recurse nodeProperties (JObj groups) (JObj groups) returnDefaults
                     returnNoneDisplayed nodeValuesRoot) (objectKeys (JObj groups)) [] = Inl e"
    by (rule foldE_error [OF mem])
       (simp add: resolveFixedItem_unknown_multiple [OF assms(2,3,4) gp])
  then show ?thesis
    using assms(1) by (auto simp: resolveComplex_def truthy_def)
qed

lemma resolveProperty_unknown_multiple:
  assumes "parameterIndex < length nodePropertiesArray"
    "type (nodePropertiesArray ! parameterIndex) = ''fixedCollection''"
    "isMultipleValues (nodePropertiesArray ! parameterIndex)"
    "options (nodePropertiesArray ! parameterIndex) = Some opts"
    "itemName \<notin> optionName ` set opts"
    "readProperty nodeValues (name (nodePropertiesArray ! parameterIndex)) = Inr (JObj groups)"
    "map_of groups itemName = Some (JArr (nodeValue # nodeValueList))"
    "returnNoneDisplayed \<or> displayOptions (nodePropertiesArray ! parameterIndex) = None"
  shows "\<exists>e. resolveProperty recurse nodePropertiesArray nodeValues returnDefaults returnNoneDisplayed
           False nodeValuesRoot0 parentType duplicateParameterNames baseline parameterIndex st = Inl e"
proof -
  let ?np = "nodePropertiesArray ! parameterIndex"
  have disp: "returnNoneDisplayed \<or> displayParameter c ?np r" for c r
    using assms(8) by (auto simp: displayParameter_def)
  have simple: "resolveSimple ?np v returnDefaults parentType duplicateParameterNames c r st = (False, st)"
    for v c r
    using assms(2) by (simp add: resolveSimple_def)
  have "\<exists>e. resolveComplex recurse ?np (JObj groups) returnDefaults returnNoneDisplayed r st = Inl e" for r
    by (rule resolveComplex_unknown_multiple [OF assms(2,3,4,5,7)])
  then show ?thesis
    using assms(1,6) disp by (auto simp: resolveProperty_def Let_def simple)
qed

lemma getNodeParameters_error_at:
  assumes "parameterIndex < length nodePropertiesArray"
    and "\<And>deps baseline st. \<exists>e. resolveProperty getNodeParameters nodePropertiesArray nodeValues returnDefaults
            returnNoneDisplayed onlySimpleTypes nodeValuesRoot0 parentType
            (duplicateNames nodePropertiesArray) baseline parameterIndex st = Inl e"
  shows "\<exists>e. getNodeParameters nodePropertiesArray nodeValues returnDefaults returnNoneDisplayed
           onlySimpleTypes dataIsResolved nodeValuesRoot0 parentType parameterDependencies = Inl e"
proof -
  define deps where "deps = (case parameterDependencies of
       None \<Rightarrow> getParamterDependencies nodePropertiesArray | Some d \<Rightarrow> d)"
  define B where "B = (if \<not> dataIsResolved \<and> \<not> returnNoneDisplayed
            then (case getNodeParameters nodePropertiesArray nodeValues True True True True
                         nodeValuesRoot0 parentType (Some deps) of
                    Inl e \<Rightarrow> Inl e
                  | Inr nodeValuesDisplayCheck \<Rightarrow> Inr (Some nodeValuesDisplayCheck))
            else Inr None)"
  have unfold: "getNodeParameters nodePropertiesArray nodeValues returnDefaults returnNoneDisplayed
           onlySimpleTypes dataIsResolved nodeValuesRoot0 parentType parameterDependencies
      = (case B of Inl e \<Rightarrow> Inl e
         | Inr baseline \<Rightarrow>
           (case getParamterResolveOrder nodePropertiesArray deps of
             Inl e \<Rightarrow> Inl e
           | Inr order \<Rightarrow>
               (case foldE (resolveProperty getNodeParameters nodePropertiesArray nodeValues returnDefaults
                              returnNoneDisplayed onlySimpleTypes nodeValuesRoot0 parentType
                              (duplicateNames nodePropertiesArray) baseline)
                       order \<lparr> nodeParameters = [], nodeParametersFull = [] \<rparr> of
                  Inl e \<Rightarrow> Inl e
                | Inr st \<Rightarrow> Inr (JObj (nodeParameters st)))))"
    unfolding B_def deps_def by (rule getNodeParameters_unfold)
  show ?thesis
  proof (cases B)
    case (Inl e)
    then show ?thesis by (simp add: unfold)
  next
    case (Inr baseline)
    show ?thesis
    proof (cases "getParamterResolveOrder nodePropertiesArray deps")
      case (Inl e)
      then show ?thesis by (simp add: unfold Inr)
    next
      case order: (Inr order)
      have "parameterIndex \<in> set order"
        by (rule getParamterResolveOrder_covers [OF order assms(1)])
      then have "\<exists>e. foldE (resolveProperty getNodeParameters nodePropertiesArray nodeValues returnDefaults
                              returnNoneDisplayed onlySimpleTypes nodeValuesRoot0 parentType
                              (duplicateNames nodePropertiesArray) baseline)
                       order \<lparr> nodeParameters = [], nodeParametersFull = [] \<rparr> = Inl e"
        by (rule foldE_error) (rule assms(2))
      then show ?thesis by (auto simp: unfold Inr order)
    qed
  qed
qed

text \<open>
  C5 (amended). For a fixedCollection field with \<open>multipleValues = true\<close> that the
  resolver reaches (hidden fields are returned or the field has no display condition, and
  \<open>onlySimpleTypes\<close> is false), a user value in which a group name that is not among the
  field's options holds a non-empty array makes \<open>getNodeParameters\<close> fail with an error.
  When \<open>multipleValues\<close> is not true, an unknown group name is no error: on the schema
  list of that one field the group is left out of the result.
\<close>

theorem fixedCollection_unknown_option:
  "(parameterIndex < length nodePropertiesArray
     \<and> type (nodePropertiesArray ! parameterIndex) = ''fixedCollection''
     \<and> isMultipleValues (nodePropertiesArray ! parameterIndex)
     \<and> options (nodePropertiesArray ! parameterIndex) = Some opts
     \<and> itemName \<notin> optionName ` set opts
     \<and> readProperty nodeValues (name (nodePropertiesArray ! parameterIndex)) = Inr (JObj groups)
     \<and> map_of groups itemName = Some (JArr (nodeValue # nodeValueList))
     \<and> (returnNoneDisplayed \<or> displayOptions (nodePropertiesArray ! parameterIndex) = None)
    \<longrightarrow> (\<exists>e. getNodeParameters nodePropertiesArray nodeValues returnDefaults returnNoneDisplayed False
                dataIsResolved nodeValuesRoot parentType parameterDependencies = Inl e))
   \<and> (type nodeProperties = ''fixedCollection''
     \<and> \<not> isMultipleValues nodeProperties
     \<and> options nodeProperties = Some opts
     \<and> itemName \<notin> optionName ` set opts
     \<and> displayOptions nodeProperties = None
    \<longrightarrow> getNodeParameters [nodeProperties] (JObj [(name nodeProperties, JObj [(itemName, itemValue)])])
          returnDefaults returnNoneDisplayed False False JUndefined None None
        = Inr (JObj (if returnDefaults then [(name nodeProperties, JObj [])] else [])))"
proof (intro conjI impI)
  assume a: "parameterIndex < length nodePropertiesArray
     \<and> type (nodePropertiesArray ! parameterIndex) = ''fixedCollection''
     \<and> isMultipleValues (nodePropertiesArray ! parameterIndex)
     \<and> options (nodePropertiesArray ! parameterIndex) = Some opts
     \<and> itemName \<notin> optionName ` set opts
     \<and> readProperty nodeValues (name (nodePropertiesArray ! parameterIndex)) = Inr (JObj groups)
     \<and> map_of groups itemName = Some (JArr (nodeValue # nodeValueList))
     \<and> (returnNoneDisplayed \<or> displayOptions (nodePropertiesArray ! parameterIndex) = None)"
  show "\<exists>e. getNodeParameters nodePropertiesArray nodeValues returnDefaults returnNoneDisplayed False
                dataIsResolved nodeValuesRoot parentType parameterDependencies = Inl e"
  proof (rule getNodeParameters_error_at)
    show "parameterIndex < length nodePropertiesArray" using a by simp
  next
    fix deps :: IParameterDependencies and baseline st
    show "\<exists>e. resolveProperty getNodeParameters nodePropertiesArray nodeValues returnDefaults
            returnNoneDisplayed False nodeValuesRoot parentType
            (duplicateNames nodePropertiesArray) baseline parameterIndex st = Inl e"
      using a by (intro resolveProperty_unknown_multiple) auto
  qed
next
  assume b: "type nodeProperties = ''fixedCollection''
     \<and> \<not> isMultipleValues nodeProperties
     \<and> options nodeProperties = Some opts
     \<and> itemName \<notin> optionName ` set opts
     \<and> displayOptions nodeProperties = None"
  let ?V = "JObj [(name nodeProperties, JObj [(itemName, itemValue)])]"
  have simple: "resolveSimple nodeProperties v rd p d c r st = (False, st)" for v rd p d c r st
    using b by (simp add: resolveSimple_def)
  have disp: "displayParameter c nodeProperties r" for c r
    using b by (simp add: displayParameter_def)
  have item: "resolveFixedItem getNodeParameters nodeProperties v pv rd rnd r itemName cv = Inr cv"
    for v pv rd rnd r cv
    using b by (intro resolveFixedItem_unknown_single) auto
  have cx: "resolveComplex getNodeParameters nodeProperties (JObj [(itemName, itemValue)]) returnDefaults
              rnd r st
            = Inr (if returnDefaults then setParameter (name nodeProperties) (JObj []) st else st)"
    for rnd r st
    using b by (simp add: resolveComplex_def truthy_def objectKeys_def item)
  have base: "getNodeParameters [nodeProperties] ?V True True True True JUndefined None
                (Some [(name nodeProperties, [])]) = Inr (JObj [])"
    by (simp add: getNodeParameters_single_given resolveProperty_def Let_def readProperty_def
        isNullish_def getProperty_def simple)
  show "getNodeParameters [nodeProperties] ?V returnDefaults returnNoneDisplayed False False JUndefined
          None None
        = Inr (JObj (if returnDefaults then [(name nodeProperties, JObj [])] else []))"
    using b
    by (simp add: getNodeParameters_single base resolveProperty_def Let_def readProperty_def
        isNullish_def getProperty_def simple disp cx setParameter_def)
qed

text \<open>
  The poll times of a polling node, with a group \<open>item\<close>. A value with the unknown group
  \<open>bogus\<close> fails when the field has \<open>multipleValues\<close> and the group holds one element; it
  resolves to nothing when the field has not.
\<close>

theorem fixedCollection_unknown_option_witness:
  "(\<exists>e. getNodeParameters [pollTimes (Some True)]
           (JObj [(''pollTimes'', JObj [(''bogus'', JArr [JObj []])])])
           True True False False JUndefined None None = Inl e)
   \<and> getNodeParameters [pollTimes None] (JObj [(''pollTimes'', JObj [(''bogus'', JObj [])])])
        False False False False JUndefined None None = Inr (JObj [])"
proof -
  have 1: "0 < length [pollTimes (Some True)]
     \<and> type ([pollTimes (Some True)] ! 0) = ''fixedCollection''
     \<and> isMultipleValues ([pollTimes (Some True)] ! 0)
     \<and> options ([pollTimes (Some True)] ! 0) = Some [PropertyCollection ''Item'' ''item''
                [INodeProperties ''Mode'' ''mode'' ''options'' None (JStr ''everyDay'') None None None]]
     \<and> ''bogus'' \<notin> optionName ` set [PropertyCollection ''Item'' ''item''
                [INodeProperties ''Mode'' ''mode'' ''options'' None (JStr ''everyDay'') None None None]]
     \<and> readProperty (JObj [(''pollTimes'', JObj [(''bogus'', JArr [JObj []])])])
           (name ([pollTimes (Some True)] ! 0)) = Inr (JObj [(''bogus'', JArr [JObj []])])
     \<and> map_of [(''bogus'', JArr [JObj []])] ''bogus'' = Some (JArr (JObj [] # []))
     \<and> (True \<or> displayOptions ([pollTimes (Some True)] ! 0) = None)"
    by (simp add: pollTimes_def isMultipleValues_def optionName_def readProperty_def isNullish_def
        getProperty_def)
  have 2: "type (pollTimes None) = ''fixedCollection''
     \<and> \<not> isMultipleValues (pollTimes None)
     \<and> options (pollTimes None) = Some [PropertyCollection ''Item'' ''item''
                [INodeProperties ''Mode'' ''mode'' ''options'' None (JStr ''everyDay'') None None None]]
     \<and> ''bogus'' \<notin> optionName ` set [PropertyCollection ''Item'' ''item''
                [INodeProperties ''Mode'' ''mode'' ''options'' None (JStr ''everyDay'') None None None]]
     \<and> displayOptions (pollTimes None) = None"
    by (simp add: pollTimes_def isMultipleValues_def optionName_def)
  have n: "name (pollTimes None) = ''pollTimes''" by (simp add: pollTimes_def)
  from fixedCollection_unknown_option [THEN conjunct1, rule_format, OF 1]
  have a: "\<exists>e. getNodeParameters [pollTimes (Some True)]
           (JObj [(''pollTimes'', JObj [(''bogus'', JArr [JObj []])])])
           True True False False JUndefined None None = Inl e" .
  from fixedCollection_unknown_option [THEN conjunct2, rule_format, OF 2,
      of "JObj []" False False]
  have b: "getNodeParameters [pollTimes None] (JObj [(''pollTimes'', JObj [(''bogus'', JObj [])])])
        False False False False JUndefined None None = Inr (JObj [])"
    by (simp add: n)
  from a b show ?thesis by blast
qed

text \<open>
  C5 as it is stated, at a field without \<open>multipleValues\<close>: the same value with
  defaults requested resolves to \<open>{pollTimes: {}}\<close>; nothing is thrown.
\<close>

theorem fixedCollection_unknown_option_counterexample:
  "type (pollTimes None) = ''fixedCollection''
   \<and> options (pollTimes None)
       = Some [PropertyCollection ''Item'' ''item''
                [INodeProperties ''Mode'' ''mode'' ''options'' None (JStr ''everyDay'') None None None]]
   \<and> getNodeParameters [pollTimes None] (JObj [(''pollTimes'', JObj [(''bogus'', JObj [])])])
        True True False False JUndefined None None
     = Inr (JObj [(''pollTimes'', JObj [])])"
  by code_simp

section \<open>C6: false and 0 are values\<close>




section \<open>C7: a required string\<close>





section \<open>C8: merging issues\<close>

text \<open>
  One message list pushed after another is the concatenation pushed once; pushes under
  different names commute when the first name is already a key; and pushing into a
  merged property is merging after the push.
\<close>

lemma pushIssues_keys: "fst ` set (pushIssues e d) = insert (fst e) (fst ` set d)"
  by (cases e) (simp add: pushIssues_def AList.dom_update)

lemma map_of_pushIssues:
  "map_of (pushIssues (k, ms) d) =
     (map_of d)(k \<mapsto> (case map_of d k of None \<Rightarrow> [] | Some old \<Rightarrow> old) @ ms)"
  by (simp add: pushIssues_def AList.update_conv')

lemma pushIssues_same:
  "pushIssues (k, ms2) (pushIssues (k, ms1) d) = pushIssues (k, ms1 @ ms2) d"
  by (simp add: pushIssues_def AList.update_conv')

lemma update_swap_in:
  "k \<in> fst ` set d \<Longrightarrow> k \<noteq> k' \<Longrightarrow>
     AList.update k v (AList.update k' v' d) = AList.update k' v' (AList.update k v d)"
  by (induction d) (auto)

lemma pushIssues_swap:
  "k \<in> fst ` set d \<Longrightarrow> k \<noteq> k' \<Longrightarrow>
     pushIssues (k, ms) (pushIssues (k', ms') d) = pushIssues (k', ms') (pushIssues (k, ms) d)"
proof -
  assume a: "k \<in> fst ` set d" "k \<noteq> k'"
  have 1: "map_of (AList.update k' v' d) k = map_of d k" for v' using a by (simp add: AList.update_conv')
  have 2: "map_of (AList.update k v d) k' = map_of d k'" for v using a by (simp add: AList.update_conv')
  show ?thesis unfolding pushIssues_def prod.case 1 2 using a by (rule update_swap_in)
qed

lemma fold_pushIssues_keys: "fst ` set (fold pushIssues s d) = fst ` set s \<union> fst ` set d"
  by (induction s arbitrary: d) (auto simp: pushIssues_keys)

lemma pushIssues_fold_commute:
  "k \<in> fst ` set d \<Longrightarrow> k \<notin> fst ` set s \<Longrightarrow>
     pushIssues (k, ms) (fold pushIssues s d) = fold pushIssues s (pushIssues (k, ms) d)"
proof (induction s arbitrary: d)
  case Nil
  then show ?case by simp
next
  case (Cons y s)
  obtain k' ms' where y: "y = (k', ms')" by (cases y)
  from Cons.prems have ne: "k \<noteq> k'" and notin: "k \<notin> fst ` set s" by (auto simp: y)
  have "k \<in> fst ` set (pushIssues y d)" using Cons.prems(1) by (simp add: pushIssues_keys)
  then have "pushIssues (k, ms) (fold pushIssues s (pushIssues y d))
      = fold pushIssues s (pushIssues (k, ms) (pushIssues y d))"
    using Cons.IH notin by blast
  also have "pushIssues (k, ms) (pushIssues y d) = pushIssues y (pushIssues (k, ms) d)"
    unfolding y using Cons.prems(1) ne by (rule pushIssues_swap)
  finally show ?case by simp
qed

lemma pushIssues_fold_assoc:
  "distinct (map fst b) \<Longrightarrow>
     pushIssues x (fold pushIssues b a) = fold pushIssues (pushIssues x b) a"
proof (induction b arbitrary: a)
  case Nil
  then show ?case by (cases x) (simp add: pushIssues_def)
next
  case (Cons y b)
  obtain k ms where x: "x = (k, ms)" by (cases x)
  obtain k' ms' where y: "y = (k', ms')" by (cases y)
  show ?case
  proof (cases "k' = k")
    case True
    have notin: "k \<notin> fst ` set b" using Cons.prems by (auto simp: y True)
    have kin: "k \<in> fst ` set (pushIssues (k, ms') a)" by (simp add: pushIssues_keys)
    have "pushIssues x (fold pushIssues (y # b) a)
        = pushIssues (k, ms) (fold pushIssues b (pushIssues (k, ms') a))"
      by (simp add: x y True)
    also have "\<dots> = fold pushIssues b (pushIssues (k, ms) (pushIssues (k, ms') a))"
      using kin notin by (rule pushIssues_fold_commute)
    also have "\<dots> = fold pushIssues b (pushIssues (k, ms' @ ms) a)"
      by (simp add: pushIssues_same)
    also have "\<dots> = fold pushIssues (pushIssues x (y # b)) a"
      by (simp add: x y True pushIssues_def)
    finally show ?thesis .
  next
    case False
    have "pushIssues x (fold pushIssues (y # b) a) = pushIssues x (fold pushIssues b (pushIssues y a))"
      by simp
    also have "\<dots> = fold pushIssues (pushIssues x b) (pushIssues y a)"
      using Cons.IH Cons.prems by simp
    also have "\<dots> = fold pushIssues (pushIssues x (y # b)) a"
      using False by (simp add: x y pushIssues_def)
    finally show ?thesis .
  qed
qed

lemma pushIssues_distinct: "distinct (map fst b) \<Longrightarrow> distinct (map fst (pushIssues x b))"
  by (cases x) (simp add: pushIssues_def AList.distinct_update)

lemma fold_pushIssues_assoc:
  "distinct (map fst b) \<Longrightarrow>
     fold pushIssues c (fold pushIssues b a) = fold pushIssues (fold pushIssues c b) a"
proof (induction c arbitrary: b)
  case Nil
  then show ?case by simp
next
  case (Cons x c)
  have "fold pushIssues (x # c) (fold pushIssues b a)
      = fold pushIssues c (pushIssues x (fold pushIssues b a))" by simp
  also have "\<dots> = fold pushIssues c (fold pushIssues (pushIssues x b) a)"
    using Cons.prems by (simp add: pushIssues_fold_assoc)
  also have "\<dots> = fold pushIssues (fold pushIssues c (pushIssues x b)) a"
    using Cons.IH [of "pushIssues x b"] Cons.prems by (simp add: pushIssues_distinct)
  finally show ?case by simp
qed

lemma fold_pushIssues_distinct:
  "distinct (map fst b) \<Longrightarrow> distinct (map fst (fold pushIssues c b))"
  by (induction c arbitrary: b) (simp_all add: pushIssues_distinct)

lemma map_of_fold_pushIssues_other:
  "k \<notin> fst ` set s \<Longrightarrow> map_of (fold pushIssues s d) k = map_of d k"
proof (induction s arbitrary: d)
  case Nil then show ?case by simp
next
  case (Cons z s)
  obtain k' ms' where z: "z = (k', ms')" by (cases z)
  from Cons.prems have "k \<noteq> k'" "k \<notin> fst ` set s" by (auto simp: z)
  then show ?case using Cons.IH [of "pushIssues z d"] by (simp add: z map_of_pushIssues)
qed

lemma map_of_fold_pushIssues:
  "distinct (map fst s) \<Longrightarrow> map_of s k = Some ms \<Longrightarrow>
     map_of (fold pushIssues s d) k = Some ((case map_of d k of None \<Rightarrow> [] | Some old \<Rightarrow> old) @ ms)"
proof (induction s arbitrary: d)
  case Nil
  then show ?case by simp
next
  case (Cons y s)
  obtain k' ms' where y: "y = (k', ms')" by (cases y)
  show ?case
  proof (cases "k' = k")
    case True
    then have ms: "ms' = ms" and notin: "k \<notin> fst ` set s" using Cons.prems by (auto simp: y)
    have kin: "k \<in> fst ` set (pushIssues (k, ms) d)" by (simp add: pushIssues_keys)
    have "map_of (fold pushIssues s (pushIssues (k, ms) d)) k = map_of (pushIssues (k, ms) d) k"
      using notin by (rule map_of_fold_pushIssues_other)
    then show ?thesis by (simp add: y True ms map_of_pushIssues)
  next
    case False
    then have "map_of s k = Some ms" using Cons.prems by (simp add: y)
    then show ?thesis using Cons.IH [of "pushIssues y d"] Cons.prems False
      by (simp add: y map_of_pushIssues)
  qed
qed

lemma mergeIssueProperty_assoc:
  "distinctKeys b \<Longrightarrow>
     mergeIssueProperty (mergeIssueProperty a b) c = mergeIssueProperty a (mergeIssueProperty b c)"
  using fold_pushIssues_assoc [of "[]"]
  by (cases a; cases b; cases c)
     (simp_all add: mergeIssueProperty_def distinctKeys_def fold_pushIssues_assoc)

lemma messagesOf_mergeIssueProperty:
  assumes "distinctKeys s"
  shows "messagesOf (mergeIssueProperty d s) k = messagesOf d k @ messagesOf s k"
proof (cases s)
  case None
  then show ?thesis by (simp add: mergeIssueProperty_def messagesOf_def)
next
  case (Some sp)
  have dist: "distinct (map fst sp)" using assms by (simp add: distinctKeys_def Some)
  define d0 where "d0 = (case d of None \<Rightarrow> [] | Some dp \<Rightarrow> dp)"
  have old: "(case map_of d0 k of None \<Rightarrow> [] | Some old \<Rightarrow> old) = messagesOf d k"
    by (cases d) (simp_all add: d0_def messagesOf_def)
  have res: "mergeIssueProperty d (Some sp) = Some (fold pushIssues sp d0)"
    by (simp add: mergeIssueProperty_def d0_def)
  note s = Some
  show ?thesis
  proof (cases "map_of sp k")
    case None
    then have "k \<notin> fst ` set sp" by (simp add: map_of_eq_None_iff)
    then have "map_of (fold pushIssues sp d0) k = map_of d0 k"
      by (rule map_of_fold_pushIssues_other)
    then show ?thesis using None old by (simp add: s res) (simp add: messagesOf_def)
  next
    case (Some ms)
    have "map_of (fold pushIssues sp d0) k = Some (messagesOf d k @ ms)"
      using map_of_fold_pushIssues [OF dist Some, of d0] by (simp add: old)
    then show ?thesis using Some by (simp add: s res) (simp add: messagesOf_def)
  qed
qed

lemma mergeIssues_parameters:
  "parameters (mergeIssues d (Some s)) = mergeIssueProperty (parameters d) (parameters s)"
  by (simp add: mergeIssues_def)

lemma mergeIssues_credentials:
  "credentials (mergeIssues d (Some s)) = mergeIssueProperty (credentials d) (credentials s)"
  by (simp add: mergeIssues_def)

text \<open>
  C8. \<open>mergeIssues\<close> appends the source's messages of every field to the
  destination's, for parameters and for credentials, without removing duplicates: after
  merging the same source twice, every field has the destination's messages followed by
  the source's messages twice. Merging is associative: merging \<open>src\<close> and then \<open>src'\<close>
  into a destination gives what merging (\<open>src'\<close> merged into \<open>src\<close>) gives. The
  \<open>execution\<close> and \<open>typeUnknown\<close> flags of the result are true exactly when they are true
  in the destination or in the source.
\<close>

theorem mergeIssues_concat_assoc:
  assumes "wellFormedIssues src"
  shows "messagesOf (parameters (mergeIssues dst (Some src))) k
           = messagesOf (parameters dst) k @ messagesOf (parameters src) k
       \<and> messagesOf (credentials (mergeIssues dst (Some src))) k
           = messagesOf (credentials dst) k @ messagesOf (credentials src) k
       \<and> messagesOf (parameters (mergeIssues (mergeIssues dst (Some src)) (Some src))) k
           = messagesOf (parameters dst) k @ messagesOf (parameters src) k @ messagesOf (parameters src) k
       \<and> messagesOf (credentials (mergeIssues (mergeIssues dst (Some src)) (Some src))) k
           = messagesOf (credentials dst) k @ messagesOf (credentials src) k @ messagesOf (credentials src) k
       \<and> mergeIssues (mergeIssues dst (Some src)) (Some src')
           = mergeIssues dst (Some (mergeIssues src (Some src')))
       \<and> execution (mergeIssues dst (Some src))
           = (if execution src = Some True then Some True else execution dst)
       \<and> (execution (mergeIssues dst (Some src)) = Some True)
           = (execution dst = Some True \<or> execution src = Some True)
       \<and> (typeUnknown (mergeIssues dst (Some src)) = Some True)
           = (typeUnknown dst = Some True \<or> typeUnknown src = Some True)"
proof -
  have p: "distinctKeys (parameters src)" and c: "distinctKeys (credentials src)"
    using assms by (simp_all add: wellFormedIssues_def)
  have assoc: "mergeIssues (mergeIssues dst (Some src)) (Some src')
           = mergeIssues dst (Some (mergeIssues src (Some src')))"
    by (simp add: mergeIssues_def mergeIssueProperty_assoc [OF p] mergeIssueProperty_assoc [OF c])
  have flags: "(execution (mergeIssues dst (Some src)) = Some True)
           = (execution dst = Some True \<or> execution src = Some True)"
     "(typeUnknown (mergeIssues dst (Some src)) = Some True)
           = (typeUnknown dst = Some True \<or> typeUnknown src = Some True)"
     "execution (mergeIssues dst (Some src))
           = (if execution src = Some True then Some True else execution dst)"
    by (auto simp: mergeIssues_def)
  show ?thesis
    using assoc flags
    by (simp add: mergeIssues_parameters mergeIssues_credentials
        messagesOf_mergeIssueProperty [OF p] messagesOf_mergeIssueProperty [OF c])
qed

theorem mergeIssues_concat_assoc_witness:
  "wellFormedIssues \<lparr>execution = None, parameters = Some [(''url'', [''Parameter URL is required.''])],
       credentials = None, typeUnknown = Some True\<rparr>
   \<and> messagesOf (parameters (mergeIssues
          (mergeIssues \<lparr>execution = None, parameters = None, credentials = None, typeUnknown = None\<rparr>
             (Some \<lparr>execution = None, parameters = Some [(''url'', [''Parameter URL is required.''])],
                credentials = None, typeUnknown = Some True\<rparr>))
          (Some \<lparr>execution = None, parameters = Some [(''url'', [''Parameter URL is required.''])],
                credentials = None, typeUnknown = Some True\<rparr>))) ''url''
       = [''Parameter URL is required.'', ''Parameter URL is required.'']"
proof -
  have wf: "wellFormedIssues \<lparr>execution = None, parameters = Some [(''url'', [''Parameter URL is required.''])],
       credentials = None, typeUnknown = Some True\<rparr>"
    by (simp add: wellFormedIssues_def distinctKeys_def)
  show ?thesis
    using wf mergeIssues_concat_assoc [OF wf,
        of "\<lparr>execution = None, parameters = None, credentials = None, typeUnknown = None\<rparr>" "''url''",
        THEN conjunct2, THEN conjunct2, THEN conjunct1]
    by (simp add: messagesOf_def)
qed

section \<open>Webhook paths: the composition rule and the three examples\<close>




section \<open>C10: the result is never null\<close>

text \<open>
  C10. Whatever its arguments, \<open>getNodeParameters\<close> either throws or returns an object:
  it never returns \<open>null\<close>, so the tests \<open>tempValue !== null\<close> on the result of a
  recursive call always succeed.
\<close>

theorem getNodeParameters_never_null:
  "getNodeParameters nodePropertiesArray nodeValues returnDefaults returnNoneDisplayed onlySimpleTypes
       dataIsResolved nodeValuesRoot parentType parameterDependencies \<noteq> Inr JNull
   \<and> ((\<exists>e. getNodeParameters nodePropertiesArray nodeValues returnDefaults returnNoneDisplayed
              onlySimpleTypes dataIsResolved nodeValuesRoot parentType parameterDependencies = Inl e)
      \<or> (\<exists>result. getNodeParameters nodePropertiesArray nodeValues returnDefaults returnNoneDisplayed
              onlySimpleTypes dataIsResolved nodeValuesRoot parentType parameterDependencies
            = Inr (JObj result)))"
  by (subst (1 2 3) getNodeParameters.simps) (simp add: Let_def split: sum.splits)



end
